theory Spec2Isabelle
  imports Complex_Main
begin

section \<open>Python values\<close>

text \<open>
  The server handles values decoded from JSON and builds the dictionaries it sends.
  A float is a finite number, an infinity or NaN (\<open>json.loads\<close> accepts the literals
  \<open>Infinity\<close>, \<open>-Infinity\<close> and \<open>NaN\<close>). A dictionary is an association list in
  insertion order; a decoded JSON object has no repeated key.
\<close>

datatype pyfloat = Finite real | PosInf | NegInf | NaN

datatype pyval =
    PNone
  | PBool bool
  | PInt int
  | PFloat pyfloat
  | PStr string
  | PList "pyval list"
  | PDict "(string \<times> pyval) list"

type_synonym dict = "(string \<times> pyval) list"

datatype exn = AttributeError | TypeError | ValueError | OverflowError | JSONDecodeError

text \<open>\<open>d.get(k, dflt)\<close>: only a dictionary has the method.\<close>

definition py_get :: "pyval \<Rightarrow> string \<Rightarrow> pyval \<Rightarrow> exn + pyval" where
  "py_get d k dflt =
     (case d of
        PDict kvs \<Rightarrow> Inr (case map_of kvs k of None \<Rightarrow> dflt | Some v \<Rightarrow> v)
      | _ \<Rightarrow> Inl AttributeError)"

text \<open>
  \<open>int(v)\<close>. An integer is returned as it is, a boolean is 0 or 1, a finite float is
  truncated towards zero, NaN raises ValueError and an infinity OverflowError, \<open>None\<close>, a
  list and a dictionary raise TypeError. How Python reads an integer from a string
  (signs, blanks, underscores, digits of any script, the length limit) is the parameter
  \<open>int_of_str\<close>, \<open>None\<close> where \<open>int\<close> raises ValueError.
\<close>

fun py_int :: "(string \<Rightarrow> int option) \<Rightarrow> pyval \<Rightarrow> exn + int" where
  "py_int int_of_str (PInt n) = Inr n"
| "py_int int_of_str (PBool b) = Inr (if b then 1 else 0)"
| "py_int int_of_str (PFloat (Finite x)) = Inr (if 0 \<le> x then \<lfloor>x\<rfloor> else \<lceil>x\<rceil>)"
| "py_int int_of_str (PFloat NaN) = Inl ValueError"
| "py_int int_of_str (PFloat PosInf) = Inl OverflowError"
| "py_int int_of_str (PFloat NegInf) = Inl OverflowError"
| "py_int int_of_str (PStr s) =
     (case int_of_str s of None \<Rightarrow> Inl ValueError | Some n \<Rightarrow> Inr n)"
| "py_int int_of_str PNone = Inl TypeError"
| "py_int int_of_str (PList xs) = Inl TypeError"
| "py_int int_of_str (PDict kvs) = Inl TypeError"

text \<open>
  The elements \<open>for s in v\<close> visits: those of a list, the characters of a string, the
  keys of a dictionary; anything else is not iterable.
\<close>

fun py_iter :: "pyval \<Rightarrow> exn + pyval list" where
  "py_iter (PList xs) = Inr xs"
| "py_iter (PStr s) = Inr (map (\<lambda>c. PStr [c]) s)"
| "py_iter (PDict kvs) = Inr (map (\<lambda>kv. PStr (fst kv)) kvs)"
| "py_iter PNone = Inl TypeError"
| "py_iter (PBool b) = Inl TypeError"
| "py_iter (PInt n) = Inl TypeError"
| "py_iter (PFloat x) = Inl TypeError"

section \<open>fetch_quote\<close>

text \<open>
  What the market-data library gives for one symbol: \<open>yf.download\<close> raises an
  \<open>Exception\<close> (kept as its \<open>str\<close>), returns an empty frame, or returns a frame whose
  last row is read: \<open>float(last["Close"])\<close> raises (again kept as the \<open>str\<close> of the
  exception) or is the price, and \<open>str(last.name)\<close> is the timestamp. An interrupt of the
  process (\<open>KeyboardInterrupt\<close>, \<open>SystemExit\<close>) is no answer of the library.
\<close>

datatype download =
    DownloadRaises string
  | EmptyFrame
  | LastRow "string + pyfloat" string

text \<open>The body of the \<open>try\<close> of \<open>fetch_quote\<close>; \<open>Inl e\<close> is an exception with \<open>str\<close> \<open>e\<close>.\<close>

definition fetch_try :: "pyval \<Rightarrow> download \<Rightarrow> string + dict" where
  "fetch_try symbol df =
     (case df of
        DownloadRaises e \<Rightarrow> Inl e
      | EmptyFrame \<Rightarrow> Inr [(''symbol'', symbol), (''error'', PStr ''No data returned'')]
      | LastRow close timestamp \<Rightarrow>
          (case close of
             Inl e \<Rightarrow> Inl e
           | Inr price \<Rightarrow>
               Inr [(''symbol'', symbol),
                    (''price'', PFloat price),
                    (''currency'', PStr ''N/A''),
                    (''timestamp'', PStr timestamp)]))"

text \<open>\<open>fetch_quote\<close>: the \<open>try\<close> with its \<open>except Exception\<close>; \<open>Inl\<close> would be a raise.\<close>

definition fetch_quote :: "pyval \<Rightarrow> download \<Rightarrow> exn + dict" where
  "fetch_quote symbol df =
     (case fetch_try symbol df of
        Inr quote \<Rightarrow> Inr quote
      | Inl e \<Rightarrow> Inr [(''symbol'', symbol), (''error'', PStr e)])"

section \<open>ConnectionManager\<close>

text \<open>
  A websocket is identified by the order of its arrival. The registry is a set, as in the
  source; nothing below depends on an order of its elements.
\<close>

type_synonym conn = nat

record connection_manager =
  connections :: "conn set"
  symbols :: pyval
  interval :: int

definition init_manager :: connection_manager where
  "init_manager =
     \<lparr>connections = {}, symbols = PList [PStr ''^GSPC'', PStr ''^NDX''], interval = 15\<rparr>"

text \<open>
  \<open>connect\<close>, after \<open>accept\<close> has returned: the boolean says that
  \<open>asyncio.create_task(self.stream_prices())\<close> is called.
\<close>

definition connect :: "connection_manager \<Rightarrow> conn \<Rightarrow> connection_manager \<times> bool" where
  "connect m ws =
     (let m' = m\<lparr>connections := insert ws (connections m)\<rparr>
      in (m', card (connections m') = 1))"

definition disconnect :: "connection_manager \<Rightarrow> conn \<Rightarrow> connection_manager" where
  "disconnect m ws =
     (if ws \<in> connections m then m\<lparr>connections := connections m - {ws}\<rparr> else m)"

section \<open>stream_prices\<close>

text \<open>
  An instance of \<open>stream_prices\<close> is a task; it gives up control only at an \<open>await\<close>.
  Its state between two runs is where it waits:
  \<^item> \<open>Created\<close>: \<open>create_task\<close> was called, the body has not started;
  \<^item> \<open>Fetching rest updates\<close>: in \<open>for s in self.symbols\<close>, at \<open>await fetch_quote(s)\<close>
    for the head of \<open>rest\<close>, with the quotes collected so far;
  \<^item> \<open>Sending msg todo\<close>: in \<open>for ws in list(self.connections)\<close>, at
    \<open>await ws.send_text(msg)\<close>, with the websockets of the snapshot not served yet;
  \<^item> \<open>Sleeping d\<close>: in \<open>await asyncio.sleep(self.interval)\<close>, suspended for \<open>d\<close>
    seconds;
  \<^item> \<open>Returned\<close>: the \<open>while\<close> condition was false;
  \<^item> \<open>Raised e\<close>: an exception left the coroutine.

  \<open>fetch_quote\<close> has no \<open>await\<close> of its own, so in the source a task is never suspended
  at \<open>await fetch_quote(s)\<close>; the model allows other tasks to run there, which only adds
  behaviours. The \<open>print\<close> of the quotes is left out, and time is not measured: a
  sleeping task is woken at some later moment.
\<close>

datatype task =
    Created
  | Fetching "pyval list" "dict list"
  | Sending pyval "conn set"
  | Sleeping int
  | Returned
  | Raised exn

text \<open>
  What a task is resumed with: \<open>Wake\<close> starts the body or ends a sleep; \<open>Fetched df\<close> is
  the library's answer for the symbol being fetched; \<open>Sent ws ok\<close> ends the
  \<open>send_text\<close> to \<open>ws\<close>, which returned (\<open>ok\<close>) or raised an exception. The order in
  which \<open>list(self.connections)\<close> lists a set is not fixed, so any websocket of the
  snapshot not served yet may be the one the task is sending to.
\<close>

datatype resumption = Wake | Fetched download | Sent conn bool

text \<open>
  The value given to \<open>json.dumps\<close>; \<open>msg\<close> stands for the text it returns, computed
  once in a cycle from this value.
\<close>

definition message :: "dict list \<Rightarrow> pyval" where
  "message updates = PDict [(''type'', PStr ''quotes''), (''data'', PList (map PDict updates))]"

text \<open>
  \<open>await asyncio.sleep(d)\<close>, \<open>d\<close> an integer. For \<open>d <= 0\<close> the task only gives up
  control once and goes on: it sleeps 0 seconds. Otherwise the delay is handed to the
  event loop, which raises OverflowError out of the call when the integer is too large
  for it, and else suspends the task for \<open>d\<close> seconds. Which integers are too large
  depends on the event loop the server is run with and is the parameter \<open>overflows\<close>;
  for the event loop of the standard library they are those that do not convert to a
  float.
\<close>

definition asyncio_sleep :: "(int \<Rightarrow> bool) \<Rightarrow> int \<Rightarrow> task" where
  "asyncio_sleep overflows d =
     (if d \<le> 0 then Sleeping 0
      else if overflows d then Raised OverflowError
      else Sleeping d)"

text \<open>
  After the last fetch: the message, the snapshot of the registry, the first send; with an
  empty snapshot, the sleep.
\<close>

definition broadcast :: "(int \<Rightarrow> bool) \<Rightarrow> connection_manager \<Rightarrow> dict list \<Rightarrow> task" where
  "broadcast overflows m updates =
     (let msg = message updates; snapshot = connections m
      in if snapshot = {} then asyncio_sleep overflows (interval m) else Sending msg snapshot)"

definition fetch_next ::
  "(int \<Rightarrow> bool) \<Rightarrow> connection_manager \<Rightarrow> pyval list \<Rightarrow> dict list \<Rightarrow> task" where
  "fetch_next overflows m rest updates =
     (if rest = [] then broadcast overflows m updates else Fetching rest updates)"

text \<open>The head of the \<open>while\<close> loop, up to the first \<open>await\<close>.\<close>

definition start_cycle :: "(int \<Rightarrow> bool) \<Rightarrow> connection_manager \<Rightarrow> task" where
  "start_cycle overflows m =
     (if connections m = {} then Returned
      else (case py_iter (symbols m) of
              Inl e \<Rightarrow> Raised e
            | Inr syms \<Rightarrow> fetch_next overflows m syms []))"

text \<open>
  One run of a task, from the \<open>await\<close> it waits at to the next: the manager and the task
  after it, and the messages delivered. \<open>None\<close>: the task does not wait for this.
\<close>

fun stream_prices ::
  "(int \<Rightarrow> bool) \<Rightarrow> connection_manager \<Rightarrow> task \<Rightarrow> resumption \<Rightarrow>
     (connection_manager \<times> task \<times> (conn \<times> pyval) list) option" where
  "stream_prices overflows m Created Wake = Some (m, start_cycle overflows m, [])"
| "stream_prices overflows m (Sleeping d) Wake = Some (m, start_cycle overflows m, [])"
| "stream_prices overflows m (Fetching (s # rest) updates) (Fetched df) =
     (case fetch_quote s df of
        Inl e \<Rightarrow> Some (m, Raised e, [])
      | Inr quote \<Rightarrow> Some (m, fetch_next overflows m rest (updates @ [quote]), []))"
| "stream_prices overflows m (Sending msg todo) (Sent ws ok) =
     (if ws \<in> todo then
        (let m' = (if ok then m else disconnect m ws);
             todo' = todo - {ws}
         in Some (m',
                  if todo' = {} then asyncio_sleep overflows (interval m')
                  else Sending msg todo',
                  if ok then [(ws, msg)] else []))
      else None)"
| "stream_prices overflows m t r = None"

section \<open>websocket_endpoint\<close>

text \<open>
  What \<open>receive_text\<close> gives the handler: it raises \<open>WebSocketDisconnect\<close>, or it returns
  a text on which \<open>json.loads\<close> raises (\<open>Inl\<close>) or returns the decoded value (\<open>Inr\<close>).
  Another exception out of \<open>receive_text\<close> leaves the handler as one out of
  \<open>json.loads\<close> does.
\<close>

datatype inbound = Disconnected | Text "exn + pyval"

text \<open>
  The body of the \<open>while True\<close> after \<open>json.loads\<close>: the manager it leaves, and the
  exception it raises, if any. There is no \<open>await\<close> in it.
\<close>

definition on_message ::
  "(string \<Rightarrow> int option) \<Rightarrow> connection_manager \<Rightarrow> pyval \<Rightarrow> connection_manager \<times> exn option" where
  "on_message int_of_str m data =
     (case py_get data ''type'' PNone of
        Inl e \<Rightarrow> (m, Some e)
      | Inr ty \<Rightarrow>
          if ty = PStr ''subscribe'' then
            (case py_get data ''symbols'' (symbols m) of
               Inl e \<Rightarrow> (m, Some e)
             | Inr syms \<Rightarrow>
                 (let m1 = m\<lparr>symbols := syms\<rparr> in
                  case py_get data ''interval'' (PInt (interval m1)) of
                    Inl e \<Rightarrow> (m1, Some e)
                  | Inr v \<Rightarrow>
                      (case py_int int_of_str v of
                         Inl e \<Rightarrow> (m1, Some e)
                       | Inr n \<Rightarrow> (m1\<lparr>interval := n\<rparr>, None))))
          else (m, None))"

datatype handler = Listening | Closed | Crashed exn

text \<open>
  One run of the handler of \<open>ws\<close>, from \<open>receive_text\<close> to the next \<open>receive_text\<close> or
  to its end. Only \<open>WebSocketDisconnect\<close> is caught.
\<close>

definition websocket_endpoint ::
  "(string \<Rightarrow> int option) \<Rightarrow> connection_manager \<Rightarrow> conn \<Rightarrow> inbound \<Rightarrow>
     connection_manager \<times> handler" where
  "websocket_endpoint int_of_str m ws inb =
     (case inb of
        Disconnected \<Rightarrow> (disconnect m ws, Closed)
      | Text (Inl e) \<Rightarrow> (m, Crashed e)
      | Text (Inr data) \<Rightarrow>
          (case on_message int_of_str m data of
             (m', None) \<Rightarrow> (m', Listening)
           | (m', Some e) \<Rightarrow> (m', Crashed e)))"

section \<open>The server\<close>

text \<open>
  The global \<open>manager\<close>, the \<open>stream_prices\<close> tasks in the order of their creation, the
  handlers in the order of their websockets' arrival, and the messages delivered so far.
\<close>

record server =
  manager :: connection_manager
  tasks :: "task list"
  handlers :: "handler list"
  outbox :: "(conn \<times> pyval) list"

definition init_server :: server where
  "init_server = \<lparr>manager = init_manager, tasks = [], handlers = [], outbox = []\<rparr>"

text \<open>
  The event loop runs one task at a time, from one \<open>await\<close> to the next:
  \<^item> \<open>Connect\<close>: a new websocket is accepted and its handler runs to \<open>receive_text\<close>;
  \<^item> \<open>Receive ws inb\<close>: the handler of \<open>ws\<close> is resumed with \<open>inb\<close>;
  \<^item> \<open>Resume i r\<close>: the \<open>i\<close>-th \<open>stream_prices\<close> task is resumed with \<open>r\<close>.
  A failing \<open>accept\<close> raises before the manager is touched and is no event.
\<close>

datatype event = Connect | Receive conn inbound | Resume nat resumption

text \<open>
  What the server is run with and the source does not fix: how \<open>int\<close> reads a string
  (the parameter of \<open>py_int\<close>), and which delays are too large for the event loop (the
  parameter of \<open>asyncio_sleep\<close>).
\<close>

record runtime =
  read_int :: "string \<Rightarrow> int option"
  sleep_overflows :: "int \<Rightarrow> bool"

fun step :: "runtime \<Rightarrow> server \<Rightarrow> event \<Rightarrow> server option" where
  "step rt s Connect =
     (let ws = length (handlers s);
          (m, spawn) = connect (manager s) ws
      in Some (s\<lparr>manager := m,
                 tasks := tasks s @ (if spawn then [Created] else []),
                 handlers := handlers s @ [Listening]\<rparr>))"
| "step rt s (Receive ws inb) =
     (if ws < length (handlers s) \<and> handlers s ! ws = Listening then
        (let (m, h) = websocket_endpoint (read_int rt) (manager s) ws inb
         in Some (s\<lparr>manager := m, handlers := (handlers s)[ws := h]\<rparr>))
      else None)"
| "step rt s (Resume i r) =
     (if i < length (tasks s) then
        (case stream_prices (sleep_overflows rt) (manager s) (tasks s ! i) r of
           None \<Rightarrow> None
         | Some (m, t, sent) \<Rightarrow>
             Some (s\<lparr>manager := m, tasks := (tasks s)[i := t], outbox := outbox s @ sent\<rparr>))
      else None)"

fun run :: "runtime \<Rightarrow> server \<Rightarrow> event list \<Rightarrow> server option" where
  "run rt s [] = Some s"
| "run rt s (e # es) =
     (case step rt s e of None \<Rightarrow> None | Some s' \<Rightarrow> run rt s' es)"

text \<open>
  The runtime of the examples below: no string of theirs is read as an integer, and the
  delays that are too large are those that do not convert to a float, as with the event
  loop of the standard library.
\<close>

definition example_runtime :: runtime where
  "example_runtime =
     \<lparr>read_int = Map.empty, sleep_overflows = (\<lambda>d. 2 ^ 1024 - 2 ^ 970 \<le> d)\<rparr>"

text \<open>A task that has neither returned nor raised is active.\<close>

fun active :: "task \<Rightarrow> bool" where
  "active Returned = False"
| "active (Raised e) = False"
| "active t = True"

text \<open>A task in the sends of a cycle; and a task that nothing but \<open>Wake\<close> can resume.\<close>

fun sending :: "task \<Rightarrow> bool" where
  "sending (Sending msg todo) = True"
| "sending t = False"

fun idle :: "task \<Rightarrow> bool" where
  "idle (Fetching rest updates) = False"
| "idle (Sending msg todo) = False"
| "idle t = True"

section \<open>Notions used in the statements\<close>

text \<open>
  The integer a received message makes the handler store in \<open>manager.interval\<close>: the
  message is a \<open>subscribe\<close> object with an \<open>interval\<close> that \<open>int\<close> converts.
\<close>

fun supplied_interval :: "(string \<Rightarrow> int option) \<Rightarrow> event \<Rightarrow> int option" where
  "supplied_interval int_of_str (Receive ws (Text (Inr (PDict kvs)))) =
     (if map_of kvs ''type'' = Some (PStr ''subscribe'') then
        (case map_of kvs ''interval'' of
           None \<Rightarrow> None
         | Some v \<Rightarrow> (case py_int int_of_str v of Inl e \<Rightarrow> None | Inr n \<Rightarrow> Some n))
      else None)"
| "supplied_interval int_of_str e = None"

text \<open>The answers task \<open>i\<close> is resumed with at its fetches, in order.\<close>

fun fetched :: "nat \<Rightarrow> event list \<Rightarrow> download list" where
  "fetched i [] = []"
| "fetched i (Resume j (Fetched df) # es) = (if j = i then df # fetched i es else fetched i es)"
| "fetched i (e # es) = fetched i es"

text \<open>The events of connecting and disconnecting clients and of the tasks: no message.\<close>

fun lifecycle :: "event \<Rightarrow> bool" where
  "lifecycle (Receive ws (Text x)) = False"
| "lifecycle e = True"

text \<open>A fetch that did not give a price.\<close>

fun failed :: "download \<Rightarrow> bool" where
  "failed (DownloadRaises e) = True"
| "failed EmptyFrame = True"
| "failed (LastRow (Inl e) ts) = True"
| "failed (LastRow (Inr price) ts) = False"



text \<open>
  Two invariants. Every websocket of the registry, and of the snapshot a task is sending
  to, has arrived. With the symbols and the interval the server starts with, a task is
  active whenever the registry is not empty.
\<close>

definition registered :: "server \<Rightarrow> bool" where
  "registered s \<longleftrightarrow>
     finite (connections (manager s)) \<and>
     (\<forall>c\<in>connections (manager s). c < length (handlers s)) \<and>
     (\<forall>t\<in>set (tasks s). \<forall>msg todo. t = Sending msg todo \<longrightarrow>
        (\<forall>c\<in>todo. c < length (handlers s)))"

definition serving :: "server \<Rightarrow> bool" where
  "serving s \<longleftrightarrow>
     symbols (manager s) = symbols init_manager \<and>
     interval (manager s) = interval init_manager \<and>
     (connections (manager s) \<noteq> {} \<longrightarrow> (\<exists>t\<in>set (tasks s). active t))"

section \<open>Steps of the server\<close>

lemma step_ResumeE:
  assumes "step p s (Resume i r) = Some s'"
  obtains m t sent where "i < length (tasks s)"
    and "stream_prices (sleep_overflows p) (manager s) (tasks s ! i) r = Some (m, t, sent)"
    and "s' = s\<lparr>manager := m, tasks := (tasks s)[i := t], outbox := outbox s @ sent\<rparr>"
  using assms by (auto split: if_splits option.splits)

lemma step_task_other:
  "step p s e = Some s' \<Longrightarrow> i < length (tasks s) \<Longrightarrow> \<forall>r. e \<noteq> Resume i r \<Longrightarrow>
     tasks s' ! i = tasks s ! i"
  by (cases e) (auto simp: Let_def nth_append split: prod.splits if_splits option.splits)

lemma step_tasks_length: "step p s e = Some s' \<Longrightarrow> length (tasks s) \<le> length (tasks s')"
  by (cases e) (auto simp: Let_def split: prod.splits if_splits option.splits)

lemma run_ConsE:
  assumes "run p s (e # es) = Some s'"
  obtains s1 where "step p s e = Some s1" and "run p s1 es = Some s'"
  using assms by (auto split: option.splits)

lemmas eval_defs =
  init_server_def init_manager_def connect_def disconnect_def websocket_endpoint_def
  on_message_def py_get_def start_cycle_def fetch_next_def broadcast_def message_def
  fetch_quote_def fetch_try_def asyncio_sleep_def example_runtime_def step.simps

declare step.simps [simp del]

subsection \<open>The interval\<close>

lemma stream_prices_interval:
  "stream_prices ov m t r = Some (m', t', sent) \<Longrightarrow> interval m' = interval m"
  by (cases "(ov, m, t, r)" rule: stream_prices.cases)
     (auto simp: disconnect_def Let_def split: if_splits sum.splits)

lemma step_interval:
  assumes "step p s e = Some s'"
  shows "interval (manager s') =
    (case supplied_interval (read_int p) e of Some n \<Rightarrow> n | None \<Rightarrow> interval (manager s))"
proof (cases e)
  case Connect
  then show ?thesis using assms by (auto simp: step.simps connect_def Let_def)
next
  case (Receive ws inb)
  show ?thesis
  proof (cases inb)
    case Disconnected
    with Receive assms show ?thesis
      by (auto simp: step.simps websocket_endpoint_def disconnect_def split: if_splits)
  next
    case (Text x)
    show ?thesis
    proof (cases x)
      case (Inl e)
      with Receive Text assms show ?thesis
        by (auto simp: step.simps websocket_endpoint_def split: if_splits)
    next
      case (Inr data)
      with Receive Text assms show ?thesis
        by (cases data)
           (auto simp: step.simps websocket_endpoint_def on_message_def py_get_def Let_def
                 split: if_splits sum.splits option.splits)
    qed
  qed
next
  case (Resume i r)
  with assms obtain m t sent where
    sp: "stream_prices (sleep_overflows p) (manager s) (tasks s ! i) r = Some (m, t, sent)" and
    s': "s' = s\<lparr>manager := m, tasks := (tasks s)[i := t], outbox := outbox s @ sent\<rparr>"
    by (auto elim: step_ResumeE)
  from stream_prices_interval [OF sp] Resume s' show ?thesis by simp
qed

lemma run_interval_positive:
  "run p s es = Some s' \<Longrightarrow> 0 < interval (manager s) \<Longrightarrow>
   \<forall>e\<in>set es. \<forall>n. supplied_interval (read_int p) e = Some n \<longrightarrow> 0 < n \<Longrightarrow>
   0 < interval (manager s')"
proof (induction es arbitrary: s)
  case Nil
  then show ?case by simp
next
  case (Cons e es)
  from Cons.prems(1) obtain s1 where s1: "step p s e = Some s1" and r: "run p s1 es = Some s'"
    by (rule run_ConsE)
  from step_interval [OF s1] Cons.prems(2,3) have "0 < interval (manager s1)"
    by (auto split: option.splits)
  with Cons.IH [OF r] Cons.prems(3) show ?case by simp
qed

subsection \<open>The sleep\<close>

lemma asyncio_sleep_idle: "idle (asyncio_sleep ov d)"
  by (simp add: asyncio_sleep_def)

lemma asyncio_sleep_not_sending: "\<not> sending (asyncio_sleep ov d)"
  by (simp add: asyncio_sleep_def)

lemma asyncio_sleep_Sleeping:
  "asyncio_sleep ov n = Sleeping d \<longleftrightarrow> (n \<le> 0 \<and> d = 0) \<or> (0 < n \<and> \<not> ov n \<and> d = n)"
  by (auto simp: asyncio_sleep_def)

text \<open>Nothing but \<open>Wake\<close> resumes an idle task.\<close>

lemma stream_prices_idle:
  "stream_prices ov m t r = Some (m', t', sent) \<Longrightarrow> idle t \<Longrightarrow> r = Wake"
  by (cases "(ov, m, t, r)" rule: stream_prices.cases) auto

lemma idle_stays:
  "run p s es = Some s' \<Longrightarrow> i < length (tasks s) \<Longrightarrow> idle (tasks s ! i) \<Longrightarrow>
   Resume i Wake \<notin> set es \<Longrightarrow>
   i < length (tasks s') \<and> tasks s' ! i = tasks s ! i \<and> (\<forall>r. Resume i r \<notin> set es)"
proof (induction es arbitrary: s)
  case Nil
  then show ?case by simp
next
  case (Cons e es)
  from Cons.prems(1) obtain s1 where s1: "step p s e = Some s1" and r: "run p s1 es = Some s'"
    by (rule run_ConsE)
  have other: "\<forall>r. e \<noteq> Resume i r"
  proof (intro allI notI)
    fix r assume e: "e = Resume i r"
    with Cons.prems(4) have "r \<noteq> Wake" by auto
    moreover from s1 [unfolded e] Cons.prems(3) have "r = Wake"
      by (auto elim!: step_ResumeE dest: stream_prices_idle)
    ultimately show False by simp
  qed
  from step_task_other [OF s1 Cons.prems(2) other]
  have t: "tasks s1 ! i = tasks s ! i" .
  from step_tasks_length [OF s1] Cons.prems(2) have l: "i < length (tasks s1)" by simp
  from Cons.IH [OF r l] t Cons.prems(3,4) other show ?case by auto
qed

lemma sleeping_stays:
  "run p s es = Some s' \<Longrightarrow> i < length (tasks s) \<Longrightarrow> tasks s ! i = Sleeping d \<Longrightarrow>
   Resume i Wake \<notin> set es \<Longrightarrow> i < length (tasks s') \<and> tasks s' ! i = Sleeping d"
  using idle_stays [of p s es s' i] by simp

text \<open>
  A task comes to sleep only through \<open>asyncio.sleep(self.interval)\<close>, called with the
  interval of that moment.
\<close>

lemma step_into_sleep:
  assumes a: "step p s (Resume i r) = Some s'" and b: "tasks s' ! i = Sleeping d"
  shows "asyncio_sleep (sleep_overflows p) (interval (manager s)) = Sleeping d"
proof -
  from a obtain m t sent where
    sp: "stream_prices (sleep_overflows p) (manager s) (tasks s ! i) r = Some (m, t, sent)" and
    s': "s' = s\<lparr>manager := m, tasks := (tasks s)[i := t], outbox := outbox s @ sent\<rparr>" and
    i: "i < length (tasks s)"
    by (auto elim: step_ResumeE)
  from s' i b have t: "t = Sleeping d" by simp
  from sp t show ?thesis
    by (cases "(sleep_overflows p, manager s, tasks s ! i, r)" rule: stream_prices.cases)
       (auto simp: disconnect_def Let_def start_cycle_def fetch_next_def broadcast_def
             split: if_splits sum.splits)
qed

lemma step_last_send:
  assumes "step p s (Resume i (Sent ws ok)) = Some s'" and "tasks s ! i = Sending msg {ws}"
  shows "tasks s' ! i = asyncio_sleep (sleep_overflows p) (interval (manager s))"
  using assms
  by (auto elim!: step_ResumeE simp: Let_def disconnect_def split: if_splits)

section \<open>fetch_quote: the shape of a quote\<close>

lemma fetch_quote_cases:
  "fetch_quote symbol df =
     Inr (case df of
            DownloadRaises e \<Rightarrow> [(''symbol'', symbol), (''error'', PStr e)]
          | EmptyFrame \<Rightarrow> [(''symbol'', symbol), (''error'', PStr ''No data returned'')]
          | LastRow (Inl e) ts \<Rightarrow> [(''symbol'', symbol), (''error'', PStr e)]
          | LastRow (Inr price) ts \<Rightarrow>
              [(''symbol'', symbol), (''price'', PFloat price),
               (''currency'', PStr ''N/A''), (''timestamp'', PStr ts)])"
  by (simp add: fetch_quote_def fetch_try_def split: download.split sum.split)

text \<open>
  Claim C10. For every symbol and every answer of the library, \<open>fetch_quote\<close> returns a
  dictionary whose \<open>symbol\<close> is its argument, and which has either exactly the fields
  \<open>symbol\<close>, \<open>price\<close>, \<open>currency\<close>, \<open>timestamp\<close>, the currency being the string \<open>N/A\<close>,
  or exactly the fields \<open>symbol\<close> and \<open>error\<close>; never a price together with an error.
\<close>

theorem fetch_quote_shape:
  "\<exists>q. fetch_quote symbol df = Inr q \<and>
       map_of q ''symbol'' = Some symbol \<and>
       ((dom (map_of q) = {''symbol'', ''price'', ''currency'', ''timestamp''} \<and>
         map_of q ''currency'' = Some (PStr ''N/A'') \<and>
         (\<exists>price. map_of q ''price'' = Some (PFloat price)) \<and>
         (\<exists>ts. map_of q ''timestamp'' = Some (PStr ts)))
        \<or>
        (dom (map_of q) = {''symbol'', ''error''} \<and>
         (\<exists>e. map_of q ''error'' = Some (PStr e)))) \<and>
       \<not> (''price'' \<in> dom (map_of q) \<and> ''error'' \<in> dom (map_of q))"
  by (cases df) (auto simp: fetch_quote_cases split: sum.split)

section \<open>Subscribe messages\<close>

lemma on_message_subscribe:
  "map_of kvs ''type'' = Some (PStr ''subscribe'') \<Longrightarrow>
   on_message f m (PDict kvs) =
     (let syms = (case map_of kvs ''symbols'' of None \<Rightarrow> symbols m | Some v \<Rightarrow> v);
          v = (case map_of kvs ''interval'' of None \<Rightarrow> PInt (interval m) | Some v \<Rightarrow> v)
      in case py_int f v of
           Inr n \<Rightarrow> (m\<lparr>symbols := syms, interval := n\<rparr>, None)
         | Inl e \<Rightarrow> (m\<lparr>symbols := syms\<rparr>, Some e))"
  by (simp add: on_message_def py_get_def Let_def split: sum.split option.split)

text \<open>
  Claim C9. A field absent from a message keeps its value: without \<open>symbols\<close> the
  symbols are unchanged, without \<open>interval\<close> the interval is unchanged, and a message
  whose \<open>type\<close> is not \<open>subscribe\<close> (or that is no object at all) changes nothing.
\<close>

theorem absent_fields_unchanged:
  "(map_of kvs ''symbols'' = None \<longrightarrow>
      symbols (fst (on_message int_of_str m (PDict kvs))) = symbols m) \<and>
   (map_of kvs ''interval'' = None \<longrightarrow>
      interval (fst (on_message int_of_str m (PDict kvs))) = interval m) \<and>
   (py_get data ''type'' PNone \<noteq> Inr (PStr ''subscribe'') \<longrightarrow>
      fst (on_message int_of_str m data) = m)"
  by (auto simp: on_message_def py_get_def Let_def split: sum.split pyval.split option.split)

theorem absent_fields_unchanged_witness:
  "map_of [(''type'', PStr ''subscribe''), (''interval'', PInt 5)] ''symbols'' = None \<and>
   symbols (fst (on_message Map.empty init_manager
      (PDict [(''type'', PStr ''subscribe''), (''interval'', PInt 5)]))) = symbols init_manager \<and>
   interval (fst (on_message Map.empty init_manager
      (PDict [(''type'', PStr ''subscribe''), (''interval'', PInt 5)]))) = 5 \<and>
   map_of [(''type'', PStr ''subscribe''), (''symbols'', PList [PStr ''AAPL''])] ''interval'' = None \<and>
   interval (fst (on_message Map.empty init_manager
      (PDict [(''type'', PStr ''subscribe''), (''symbols'', PList [PStr ''AAPL''])]))) =
     interval init_manager \<and>
   symbols (fst (on_message Map.empty init_manager
      (PDict [(''type'', PStr ''subscribe''), (''symbols'', PList [PStr ''AAPL''])]))) =
     PList [PStr ''AAPL''] \<and>
   py_get (PDict [(''type'', PStr ''ping''), (''interval'', PInt 5)]) ''type'' PNone \<noteq>
     Inr (PStr ''subscribe'') \<and>
   fst (on_message Map.empty init_manager
      (PDict [(''type'', PStr ''ping''), (''interval'', PInt 5)])) = init_manager"
  using
    absent_fields_unchanged
      [of "[(''type'', PStr ''subscribe''), (''interval'', PInt 5)]" Map.empty init_manager
          "PDict [(''type'', PStr ''ping''), (''interval'', PInt 5)]"]
    absent_fields_unchanged
      [of "[(''type'', PStr ''subscribe''), (''symbols'', PList [PStr ''AAPL''])]" Map.empty
          init_manager "PDict [(''type'', PStr ''ping''), (''interval'', PInt 5)]"]
  by (simp add: eval_defs)

text \<open>
  Claim C2, as amended. A \<open>subscribe\<close> message is applied in one run of the handler, with
  no \<open>await\<close> between the two assignments: when \<open>int\<close> converts the interval, symbols and
  interval are both replaced in that one step and the handler listens again. When \<open>int\<close>
  raises, the symbols have already been replaced, the interval keeps its value and the
  handler ends with the exception. Nothing else of the server changes.
\<close>

theorem subscribe_one_step:
  assumes "step p s (Receive ws (Text (Inr (PDict kvs)))) = Some s'"
    and "map_of kvs ''type'' = Some (PStr ''subscribe'')"
  shows "tasks s' = tasks s \<and> outbox s' = outbox s \<and>
    (let syms = (case map_of kvs ''symbols'' of None \<Rightarrow> symbols (manager s) | Some v \<Rightarrow> v);
         v = (case map_of kvs ''interval'' of None \<Rightarrow> PInt (interval (manager s)) | Some v \<Rightarrow> v)
     in case py_int (read_int p) v of
          Inr n \<Rightarrow> manager s' = (manager s)\<lparr>symbols := syms, interval := n\<rparr> \<and>
                   handlers s' = (handlers s)[ws := Listening]
        | Inl e \<Rightarrow> manager s' = (manager s)\<lparr>symbols := syms\<rparr> \<and>
                   handlers s' = (handlers s)[ws := Crashed e])"
  using assms
  by (auto simp: step.simps websocket_endpoint_def on_message_subscribe Let_def
           split: if_splits sum.splits prod.splits option.splits)

text \<open>
  The theorem at two messages to a server with one client: an interval of 5, and an
  interval \<open>null\<close>, on which \<open>int\<close> raises TypeError.
\<close>

theorem subscribe_one_step_witness:
  "step example_runtime
     \<lparr>manager = \<lparr>connections = {0}, symbols = PList [PStr ''^GSPC'', PStr ''^NDX''],
                 interval = 15\<rparr>,
      tasks = [Sleeping 15], handlers = [Listening], outbox = []\<rparr>
     (Receive 0 (Text (Inr (PDict [(''type'', PStr ''subscribe''),
                                   (''symbols'', PList [PStr ''AAPL'']),
                                   (''interval'', PInt 5)])))) =
   Some \<lparr>manager = \<lparr>connections = {0}, symbols = PList [PStr ''AAPL''], interval = 5\<rparr>,
         tasks = [Sleeping 15], handlers = [Listening], outbox = []\<rparr> \<and>
   step example_runtime
     \<lparr>manager = \<lparr>connections = {0}, symbols = PList [PStr ''^GSPC'', PStr ''^NDX''],
                 interval = 15\<rparr>,
      tasks = [Sleeping 15], handlers = [Listening], outbox = []\<rparr>
     (Receive 0 (Text (Inr (PDict [(''type'', PStr ''subscribe''),
                                   (''symbols'', PList [PStr ''AAPL'']),
                                   (''interval'', PNone)])))) =
   Some \<lparr>manager = \<lparr>connections = {0}, symbols = PList [PStr ''AAPL''], interval = 15\<rparr>,
         tasks = [Sleeping 15], handlers = [Crashed TypeError], outbox = []\<rparr>"
proof -
  let ?s = "\<lparr>manager = \<lparr>connections = {0}, symbols = PList [PStr ''^GSPC'', PStr ''^NDX''],
                         interval = 15\<rparr>,
             tasks = [Sleeping 15], handlers = [Listening], outbox = []\<rparr>"
  let ?k1 = "[(''type'', PStr ''subscribe''), (''symbols'', PList [PStr ''AAPL'']),
              (''interval'', PInt 5)]"
  let ?k2 = "[(''type'', PStr ''subscribe''), (''symbols'', PList [PStr ''AAPL'']),
              (''interval'', PNone)]"
  obtain s1 where s1: "step example_runtime ?s (Receive 0 (Text (Inr (PDict ?k1)))) = Some s1"
    by (simp add: eval_defs)
  obtain s2 where s2: "step example_runtime ?s (Receive 0 (Text (Inr (PDict ?k2)))) = Some s2"
    by (simp add: eval_defs)
  have t1: "map_of ?k1 ''type'' = Some (PStr ''subscribe'')" by simp
  have t2: "map_of ?k2 ''type'' = Some (PStr ''subscribe'')" by simp
  from subscribe_one_step [OF s1 t1] subscribe_one_step [OF s2 t2] s1 s2
  show ?thesis by (simp add: eval_defs)
qed

text \<open>
  The claim as it was stated fails: a message with new symbols and the interval \<open>null\<close>
  makes the handler raise TypeError, and leaves the new symbols with the old interval.
\<close>

theorem subscribe_torn_counterexample:
  "on_message Map.empty init_manager
     (PDict [(''type'', PStr ''subscribe''),
             (''symbols'', PList [PStr ''AAPL'']),
             (''interval'', PNone)]) =
     (\<lparr>connections = {}, symbols = PList [PStr ''AAPL''], interval = 15\<rparr>, Some TypeError) \<and>
   init_manager =
     \<lparr>connections = {}, symbols = PList [PStr ''^GSPC'', PStr ''^NDX''], interval = 15\<rparr>"
  by (simp add: eval_defs)

text \<open>
  Claim C4, as amended. The interval is positive after every run of the server in which
  no \<open>subscribe\<close> message supplies an interval that \<open>int\<close> converts to a non-positive
  number; and an interval that \<open>int\<close> converts is stored whatever its sign.
\<close>

theorem interval_positive_unless_supplied:
  "(run p init_server es = Some s \<and>
      (\<forall>e\<in>set es. \<forall>n. supplied_interval (read_int p) e = Some n \<longrightarrow> 0 < n) \<longrightarrow>
      0 < interval (manager s)) \<and>
   (step p s0 e = Some s1 \<and> supplied_interval (read_int p) e = Some n \<longrightarrow> interval (manager s1) = n)"
proof (intro conjI impI)
  assume "run p init_server es = Some s \<and>
      (\<forall>e\<in>set es. \<forall>n. supplied_interval (read_int p) e = Some n \<longrightarrow> 0 < n)"
  then show "0 < interval (manager s)"
    using run_interval_positive [of p init_server es s]
    by (simp add: init_server_def init_manager_def)
next
  assume "step p s0 e = Some s1 \<and> supplied_interval (read_int p) e = Some n"
  then show "interval (manager s1) = n"
    using step_interval [of p s0 e s1] by simp
qed

text \<open>
  The theorem at a client that connects and asks for an interval of 5, and at a message
  that asks for an interval of -3.
\<close>

theorem interval_positive_unless_supplied_witness:
  "run example_runtime init_server
     [Connect,
      Receive 0 (Text (Inr (PDict [(''type'', PStr ''subscribe''), (''interval'', PInt 5)])))] =
   Some \<lparr>manager = \<lparr>connections = {0}, symbols = PList [PStr ''^GSPC'', PStr ''^NDX''],
                     interval = 5\<rparr>,
         tasks = [Created], handlers = [Listening], outbox = []\<rparr> \<and>
   supplied_interval (read_int example_runtime) Connect = None \<and>
   supplied_interval (read_int example_runtime)
     (Receive 0 (Text (Inr (PDict [(''type'', PStr ''subscribe''), (''interval'', PInt 5)])))) =
     Some 5 \<and>
   step example_runtime
     \<lparr>manager = \<lparr>connections = {0}, symbols = PList [PStr ''^GSPC'', PStr ''^NDX''],
                 interval = 15\<rparr>,
      tasks = [Created], handlers = [Listening], outbox = []\<rparr>
     (Receive 0 (Text (Inr (PDict [(''type'', PStr ''subscribe''),
                                   (''interval'', PInt (- 3))])))) =
   Some \<lparr>manager = \<lparr>connections = {0}, symbols = PList [PStr ''^GSPC'', PStr ''^NDX''],
                     interval = - 3\<rparr>,
         tasks = [Created], handlers = [Listening], outbox = []\<rparr>"
proof -
  let ?e5 = "Receive 0 (Text (Inr (PDict [(''type'', PStr ''subscribe''),
                                          (''interval'', PInt 5)])))"
  let ?e3 = "Receive 0 (Text (Inr (PDict [(''type'', PStr ''subscribe''),
                                          (''interval'', PInt (- 3))])))"
  let ?s0 = "\<lparr>manager = \<lparr>connections = {0}, symbols = PList [PStr ''^GSPC'', PStr ''^NDX''],
                          interval = 15\<rparr>,
              tasks = [Created], handlers = [Listening], outbox = []\<rparr>"
  obtain s where r: "run example_runtime init_server [Connect, ?e5] = Some s"
    by (simp add: eval_defs)
  have h: "\<forall>e\<in>set [Connect, ?e5].
             \<forall>n. supplied_interval (read_int example_runtime) e = Some n \<longrightarrow> 0 < n"
    by (simp add: example_runtime_def)
  obtain s1 where st: "step example_runtime ?s0 ?e3 = Some s1"
    by (simp add: eval_defs)
  have su: "supplied_interval (read_int example_runtime) ?e3 = Some (- 3)"
    by (simp add: example_runtime_def)
  from interval_positive_unless_supplied
         [of example_runtime "[Connect, ?e5]" s ?s0 ?e3 s1 "- 3"] r h st su
  show ?thesis by (simp add: eval_defs)
qed

text \<open>
  The claim as it was stated fails: an interval of 0 is not rejected, it replaces 15.
\<close>

theorem nonpositive_interval_counterexample:
  "map_option (interval \<circ> manager)
     (run example_runtime init_server
        [Connect,
         Receive 0 (Text (Inr (PDict [(''type'', PStr ''subscribe''),
                                      (''interval'', PInt 0)])))]) =
   Some 0"
  by (simp add: eval_defs)

section \<open>Messages that cannot be decoded\<close>

text \<open>
  Claim C3 at a client that connects and sends a text on which \<open>json.loads\<close> raises:
  the handler ends with the exception, which \<open>except WebSocketDisconnect\<close> does not
  catch, and the websocket stays in the registry.
\<close>

theorem undecodable_message_keeps_registration:
  "run example_runtime init_server [Connect, Receive 0 (Text (Inl JSONDecodeError))] =
     Some \<lparr>manager = \<lparr>connections = {0},
                       symbols = PList [PStr ''^GSPC'', PStr ''^NDX''],
                       interval = 15\<rparr>,
           tasks = [Created],
           handlers = [Crashed JSONDecodeError],
           outbox = []\<rparr>"
  by (simp add: eval_defs)

section \<open>The registry and the tasks\<close>

lemma fetch_quote_total: "\<exists>q. fetch_quote x df = Inr q"
  by (simp add: fetch_quote_def split: sum.split)

lemma fetch_quote_not_Inl: "fetch_quote x df \<noteq> Inl e"
  by (simp add: fetch_quote_def split: sum.split)

lemma stream_prices_connections:
  "stream_prices ov m t r = Some (m', t', sent) \<Longrightarrow> connections m' \<subseteq> connections m"
  by (cases "(ov, m, t, r)" rule: stream_prices.cases)
     (auto simp: disconnect_def Let_def split: if_splits sum.splits)

lemma stream_prices_symbols:
  "stream_prices ov m t r = Some (m', t', sent) \<Longrightarrow> symbols m' = symbols m"
  by (cases "(ov, m, t, r)" rule: stream_prices.cases)
     (auto simp: disconnect_def Let_def split: if_splits sum.splits)

lemma stream_prices_todo:
  "stream_prices ov m t r = Some (m', Sending msg todo, sent) \<Longrightarrow>
     todo \<subseteq> connections m \<or> (\<exists>todo0. t = Sending msg todo0 \<and> todo \<subseteq> todo0)"
  by (cases "(ov, m, t, r)" rule: stream_prices.cases)
     (auto simp: disconnect_def Let_def start_cycle_def fetch_next_def broadcast_def
           asyncio_sleep_def split: if_splits sum.splits)

text \<open>
  With symbols that can be iterated and an interval the event loop accepts, a task ends
  only at the head of the loop, on an empty registry.
\<close>

lemma stream_prices_active:
  assumes "stream_prices ov m t r = Some (m', t', sent)" and "py_iter (symbols m) = Inr syms"
    and "\<not> ov (interval m)" and "\<not> active t'"
  shows "r = Wake \<and> connections m = {} \<and> t' = Returned \<and> m' = m"
  using assms
  by (cases "(ov, m, t, r)" rule: stream_prices.cases)
     (auto simp: disconnect_def Let_def start_cycle_def fetch_next_def broadcast_def
           asyncio_sleep_def fetch_quote_not_Inl split: if_splits sum.splits)

lemma registered_init: "registered init_server"
  by (simp add: registered_def init_server_def init_manager_def)

lemma registered_step:
  assumes "step p s e = Some s'" and "registered s"
  shows "registered s'"
proof (cases e)
  case Connect
  with assms show ?thesis
    by (auto simp: step.simps registered_def connect_def Let_def less_Suc_eq)
next
  case (Receive ws inb)
  with assms have "connections (manager s') \<subseteq> connections (manager s)"
    "tasks s' = tasks s" "length (handlers s') = length (handlers s)"
    by (auto simp: step.simps websocket_endpoint_def disconnect_def on_message_def Let_def
             split: if_splits inbound.splits sum.splits prod.splits option.splits)
  with assms(2) show ?thesis
    by (auto simp: registered_def intro: finite_subset)
next
  case (Resume i r)
  from assms(1) [unfolded Resume] obtain m t sent where
    i: "i < length (tasks s)" and
    sp: "stream_prices (sleep_overflows p) (manager s) (tasks s ! i) r = Some (m, t, sent)" and
    s': "s' = s\<lparr>manager := m, tasks := (tasks s)[i := t], outbox := outbox s @ sent\<rparr>"
    by (rule step_ResumeE)
  from stream_prices_connections [OF sp] have c: "connections m \<subseteq> connections (manager s)" .
  have "\<forall>c\<in>todo. c < length (handlers s)" if t: "t = Sending msg todo" for msg todo
  proof -
    from stream_prices_todo [of "sleep_overflows p" "manager s" "tasks s ! i" r m msg todo sent]
      sp t
    consider "todo \<subseteq> connections (manager s)"
      | todo0 where "tasks s ! i = Sending msg todo0" "todo \<subseteq> todo0"
      by auto
    then show ?thesis
    proof cases
      case 1
      with assms(2) show ?thesis by (auto simp: registered_def)
    next
      case 2
      from nth_mem [OF i] 2(1) have "Sending msg todo0 \<in> set (tasks s)" by simp
      with assms(2) 2(2) show ?thesis unfolding registered_def by blast
    qed
  qed
  with assms(2) c s' show ?thesis
    by (auto simp: registered_def intro: finite_subset
             dest!: set_update_subset_insert [THEN subsetD])
qed

lemma registered_run: "run p s es = Some s' \<Longrightarrow> registered s \<Longrightarrow> registered s'"
proof (induction es arbitrary: s)
  case Nil
  then show ?case by simp
next
  case (Cons e es)
  from Cons.prems(1) obtain s1 where "step p s e = Some s1" "run p s1 es = Some s'"
    by (rule run_ConsE)
  with Cons.IH registered_step Cons.prems(2) show ?case by blast
qed

subsection \<open>Connecting, disconnecting and the loop\<close>

text \<open>A new websocket starts a task exactly when the registry was empty.\<close>

lemma step_Connect:
  assumes "registered s"
  shows "step p s Connect =
    Some (s\<lparr>manager := (manager s)\<lparr>connections :=
                           insert (length (handlers s)) (connections (manager s))\<rparr>,
            tasks := tasks s @ (if connections (manager s) = {} then [Created] else []),
            handlers := handlers s @ [Listening]\<rparr>)"
proof -
  let ?ws = "length (handlers s)"
  from assms have "finite (connections (manager s))" and "?ws \<notin> connections (manager s)"
    by (auto simp: registered_def)
  then have "card (insert ?ws (connections (manager s))) = 1 \<longleftrightarrow> connections (manager s) = {}"
    by simp
  then show ?thesis by (simp add: step.simps connect_def Let_def)
qed

text \<open>A task that is woken on an empty registry returns.\<close>

lemma step_Wake_empty:
  assumes "i < length (tasks s)" and "tasks s ! i = Created \<or> tasks s ! i = Sleeping d"
    and "connections (manager s) = {}"
  shows "step p s (Resume i Wake) = Some (s\<lparr>tasks := (tasks s)[i := Returned]\<rparr>)"
  using assms by (auto simp: step.simps start_cycle_def)

lemma lifecycle_supplies_nothing: "lifecycle e \<Longrightarrow> supplied_interval f e = None"
  by (cases "(f, e)" rule: supplied_interval.cases) auto

lemma serving_init: "serving init_server"
  by (simp add: serving_def init_server_def init_manager_def)

lemma serving_step:
  assumes st: "step p s e = Some s'" and reg: "registered s" and srv: "serving s"
    and lc: "lifecycle e" and ok: "\<not> sleep_overflows p (interval init_manager)"
  shows "serving s'"
proof -
  from step_interval [OF st] lifecycle_supplies_nothing [OF lc] srv
  have iv: "interval (manager s') = interval init_manager"
    by (simp add: serving_def)
  show ?thesis
  proof (cases e)
    case Connect
    with st step_Connect [OF reg, of p] srv iv show ?thesis
      by (auto simp: serving_def)
  next
    case (Receive ws inb)
    with lc have "inb = Disconnected" by (cases inb) auto
    with st Receive srv show ?thesis
      by (auto simp: step.simps serving_def websocket_endpoint_def disconnect_def
               split: if_splits)
  next
    case (Resume i r)
    from st [unfolded Resume] obtain m t sent where
      i: "i < length (tasks s)" and
      sp: "stream_prices (sleep_overflows p) (manager s) (tasks s ! i) r = Some (m, t, sent)" and
      s': "s' = s\<lparr>manager := m, tasks := (tasks s)[i := t], outbox := outbox s @ sent\<rparr>"
      by (rule step_ResumeE)
    from srv have it: "py_iter (symbols (manager s)) = Inr [PStr ''^GSPC'', PStr ''^NDX'']"
      by (simp add: serving_def init_manager_def)
    from srv ok have nov: "\<not> sleep_overflows p (interval (manager s))"
      by (simp add: serving_def)
    from stream_prices_symbols [OF sp] srv have sy: "symbols m = symbols init_manager"
      by (simp add: serving_def)
    have "\<exists>t\<in>set ((tasks s)[i := t]). active t" if ne: "connections m \<noteq> {}"
    proof (cases "active t")
      case True
      with set_update_memI [OF i, of t] show ?thesis by blast
    next
      case False
      from stream_prices_active [OF sp it nov False] ne show ?thesis by simp
    qed
    with sy iv s' show ?thesis by (simp add: serving_def)
  qed
qed

lemma serving_run:
  "run p s es = Some s' \<Longrightarrow> registered s \<Longrightarrow> serving s \<Longrightarrow> \<forall>e\<in>set es. lifecycle e \<Longrightarrow>
   \<not> sleep_overflows p (interval init_manager) \<Longrightarrow> serving s'"
proof (induction es arbitrary: s)
  case Nil
  then show ?case by simp
next
  case (Cons e es)
  from Cons.prems(1) obtain s1 where s1: "step p s e = Some s1" and r: "run p s1 es = Some s'"
    by (rule run_ConsE)
  from serving_step [OF s1 Cons.prems(2,3) _ Cons.prems(5)] Cons.prems(4)
  have "serving s1" by simp
  with Cons.IH [OF r registered_step [OF s1 Cons.prems(2)]] Cons.prems(4,5)
  show ?case by simp
qed

text \<open>
  Claim C1, as amended. With an event loop that accepts the delay the server starts with,
  after every sequence of connects, disconnects and runs of the tasks:
  \<^item> a \<open>stream_prices\<close> task is active whenever the registry is not empty;
  \<^item> a task ends only by returning at the head of its loop, when it is woken and finds
    the registry empty;
  \<^item> a task that is woken and finds the registry empty does return;
  \<^item> a connecting client creates a task exactly when the registry was empty.

  A task may thus still be active, asleep or waiting for a send, while the registry is
  empty, until it is woken; how many tasks are active at a time is not stated.
\<close>

theorem loop_active_while_registered:
  assumes "run p init_server es = Some s" and "\<forall>e\<in>set es. lifecycle e"
    and "\<not> sleep_overflows p (interval init_manager)"
  shows "(connections (manager s) \<noteq> {} \<longrightarrow> (\<exists>t\<in>set (tasks s). active t)) \<and>
         (\<forall>i r s'. step p s (Resume i r) = Some s' \<and> active (tasks s ! i) \<and>
                    \<not> active (tasks s' ! i) \<longrightarrow>
            r = Wake \<and> connections (manager s) = {} \<and> tasks s' ! i = Returned) \<and>
         (\<forall>i d. i < length (tasks s) \<and> (tasks s ! i = Created \<or> tasks s ! i = Sleeping d) \<and>
                connections (manager s) = {} \<longrightarrow>
            step p s (Resume i Wake) = Some (s\<lparr>tasks := (tasks s)[i := Returned]\<rparr>)) \<and>
         step p s Connect =
           Some (s\<lparr>manager := (manager s)\<lparr>connections :=
                                  insert (length (handlers s)) (connections (manager s))\<rparr>,
                   tasks := tasks s @ (if connections (manager s) = {} then [Created] else []),
                   handlers := handlers s @ [Listening]\<rparr>)"
proof -
  from registered_run [OF assms(1) registered_init] have reg: "registered s" .
  from serving_run [OF assms(1) registered_init serving_init assms(2,3)]
  have srv: "serving s" .
  then have it: "py_iter (symbols (manager s)) = Inr [PStr ''^GSPC'', PStr ''^NDX'']"
    by (simp add: serving_def init_manager_def)
  from srv assms(3) have nov: "\<not> sleep_overflows p (interval (manager s))"
    by (simp add: serving_def)
  have "r = Wake \<and> connections (manager s) = {} \<and> tasks s' ! i = Returned"
    if st: "step p s (Resume i r) = Some s'" and na: "\<not> active (tasks s' ! i)" for i r s'
  proof -
    from st obtain m t sent where
      i: "i < length (tasks s)" and
      sp: "stream_prices (sleep_overflows p) (manager s) (tasks s ! i) r = Some (m, t, sent)" and
      s': "s' = s\<lparr>manager := m, tasks := (tasks s)[i := t], outbox := outbox s @ sent\<rparr>"
      by (rule step_ResumeE)
    from s' i na have "\<not> active t" "tasks s' ! i = t" by simp_all
    with stream_prices_active [OF sp it nov] show ?thesis by simp
  qed
  with srv step_Wake_empty [of _ s _ p] step_Connect [OF reg, of p] show ?thesis
    by (auto simp: serving_def)
qed

text \<open>
  The theorem at a server with one client, where the task has been created, and at a
  server whose only client has left before the task ran: woken, the task returns, and the
  next client creates another.
\<close>

theorem loop_active_while_registered_witness:
  "\<exists>s1 s2 s3.
     run example_runtime init_server [Connect] = Some s1 \<and>
     lifecycle Connect \<and>
     \<not> sleep_overflows example_runtime (interval init_manager) \<and>
     connections (manager s1) = {0} \<and> tasks s1 = [Created] \<and>
     (\<exists>t\<in>set (tasks s1). active t) \<and>
     run example_runtime init_server [Connect, Receive 0 Disconnected] = Some s2 \<and>
     lifecycle (Receive 0 Disconnected) \<and>
     connections (manager s2) = {} \<and> tasks s2 = [Created] \<and>
     step example_runtime s2 (Resume 0 Wake) = Some s3 \<and>
     active (tasks s2 ! 0) \<and> \<not> active (tasks s3 ! 0) \<and>
     s3 = s2\<lparr>tasks := [Returned]\<rparr> \<and>
     map_option tasks (step example_runtime s3 Connect) = Some [Returned, Created] \<and>
     map_option tasks (step example_runtime s1 Connect) = Some [Created]"
proof -
  obtain s1 where r1: "run example_runtime init_server [Connect] = Some s1"
    and v1: "s1 = \<lparr>manager = \<lparr>connections = {0},
                                  symbols = PList [PStr ''^GSPC'', PStr ''^NDX''],
                                  interval = 15\<rparr>,
                      tasks = [Created], handlers = [Listening], outbox = []\<rparr>"
    by (simp add: eval_defs)
  obtain s2 where r2: "run example_runtime init_server [Connect, Receive 0 Disconnected] = Some s2"
    and v2: "s2 = \<lparr>manager = \<lparr>connections = {},
                                  symbols = PList [PStr ''^GSPC'', PStr ''^NDX''],
                                  interval = 15\<rparr>,
                      tasks = [Created], handlers = [Closed], outbox = []\<rparr>"
    by (simp add: eval_defs)
  obtain s3 where r3: "run example_runtime init_server
                         [Connect, Receive 0 Disconnected, Resume 0 Wake] = Some s3"
    and w3: "step example_runtime s2 (Resume 0 Wake) = Some s3"
    and v3: "s3 = s2\<lparr>tasks := [Returned]\<rparr>"
    by (simp add: v2 eval_defs)
  have l1: "\<forall>e\<in>set [Connect]. lifecycle e"
    and l2: "\<forall>e\<in>set [Connect, Receive 0 Disconnected]. lifecycle e"
    and l3: "\<forall>e\<in>set [Connect, Receive 0 Disconnected, Resume 0 Wake]. lifecycle e"
    by simp_all
  have ok: "\<not> sleep_overflows example_runtime (interval init_manager)"
    by (simp add: example_runtime_def init_manager_def)
  from loop_active_while_registered [OF r1 l1 ok] loop_active_while_registered [OF r2 l2 ok]
    loop_active_while_registered [OF r3 l3 ok] r1 r2 w3 v1 v2 v3 ok
  show ?thesis by (auto simp: numeral_2_eq_2)
qed

text \<open>
  The claim as it was stated fails. A client connects, receives one broadcast and leaves:
  the registry is empty and the task sleeps. A second client connects before the task is
  woken: a second task is created, it runs its fetches and waits for its send; the first
  task is woken, finds the registry not empty, runs its fetches and waits for its send
  too. Each task runs its fetches without giving up control, as in the source.
\<close>

theorem loop_lifecycle_counterexample:
  "map_option (connections \<circ> manager)
     (run example_runtime init_server
        [Connect, Resume 0 Wake, Resume 0 (Fetched EmptyFrame), Resume 0 (Fetched EmptyFrame),
         Resume 0 (Sent 0 True), Receive 0 Disconnected]) = Some {} \<and>
   map_option (filter active \<circ> tasks)
     (run example_runtime init_server
        [Connect, Resume 0 Wake, Resume 0 (Fetched EmptyFrame), Resume 0 (Fetched EmptyFrame),
         Resume 0 (Sent 0 True), Receive 0 Disconnected]) = Some [Sleeping 15] \<and>
   map_option (connections \<circ> manager)
     (run example_runtime init_server
        [Connect, Resume 0 Wake, Resume 0 (Fetched EmptyFrame), Resume 0 (Fetched EmptyFrame),
         Resume 0 (Sent 0 True), Receive 0 Disconnected, Connect,
         Resume 1 Wake, Resume 1 (Fetched EmptyFrame), Resume 1 (Fetched EmptyFrame),
         Resume 0 Wake, Resume 0 (Fetched EmptyFrame), Resume 0 (Fetched EmptyFrame)]) =
     Some {1} \<and>
   map_option (filter active \<circ> tasks)
     (run example_runtime init_server
        [Connect, Resume 0 Wake, Resume 0 (Fetched EmptyFrame), Resume 0 (Fetched EmptyFrame),
         Resume 0 (Sent 0 True), Receive 0 Disconnected, Connect,
         Resume 1 Wake, Resume 1 (Fetched EmptyFrame), Resume 1 (Fetched EmptyFrame),
         Resume 0 Wake, Resume 0 (Fetched EmptyFrame), Resume 0 (Fetched EmptyFrame)]) =
     Some [Sending (message [[(''symbol'', PStr ''^GSPC''),
                              (''error'', PStr ''No data returned'')],
                             [(''symbol'', PStr ''^NDX''),
                              (''error'', PStr ''No data returned'')]]) {1},
           Sending (message [[(''symbol'', PStr ''^GSPC''),
                              (''error'', PStr ''No data returned'')],
                             [(''symbol'', PStr ''^NDX''),
                              (''error'', PStr ''No data returned'')]]) {1}]"
  by (simp add: eval_defs)

section \<open>One cycle of stream_prices\<close>

text \<open>
  Claim C5, as amended. The sleep that ends a cycle is called with the interval at the
  moment the sleep starts, after the last send: the task reads \<open>self.interval\<close> there and
  nowhere else, so a change made earlier in the cycle already applies. With an interval
  that is not positive the task sleeps 0 seconds; with a positive one that the event loop
  accepts it sleeps that many seconds; with one too large for the event loop the call
  raises OverflowError and the task ends. A change made while the task sleeps leaves the
  sleep as it is and applies from the next cycle.
\<close>

theorem sleep_reads_interval_late:
  "(step p s (Resume i r) = Some s' \<and> tasks s' ! i = Sleeping d \<longrightarrow>
      (interval (manager s) \<le> 0 \<and> d = 0) \<or>
      (0 < interval (manager s) \<and> \<not> sleep_overflows p (interval (manager s)) \<and>
       d = interval (manager s))) \<and>
   (step p s1 (Resume k (Sent ws ok)) = Some s1' \<and> tasks s1 ! k = Sending msg {ws} \<longrightarrow>
      tasks s1' ! k =
        (if interval (manager s1) \<le> 0 then Sleeping 0
         else if sleep_overflows p (interval (manager s1)) then Raised OverflowError
         else Sleeping (interval (manager s1)))) \<and>
   (run p s2 es = Some s3 \<and> j < length (tasks s2) \<and> tasks s2 ! j = Sleeping d2 \<and>
      Resume j Wake \<notin> set es \<longrightarrow> tasks s3 ! j = Sleeping d2)"
  using step_into_sleep [of p s i r s' d] step_last_send [of p s1 k ws ok s1' msg]
    sleeping_stays [of p s2 es s3 j d2]
  by (auto simp: asyncio_sleep_def split: if_splits)

text \<open>
  The theorem at a task that ends its only send while the interval is 5, while it is -3
  and while it is \<open>2 ^ 1024\<close>, and at a task that sleeps for 5 seconds while a client asks
  for an interval of 60.
\<close>

theorem sleep_reads_interval_late_witness:
  "step example_runtime
     \<lparr>manager = \<lparr>connections = {0}, symbols = PList [], interval = 5\<rparr>,
      tasks = [Sending (message []) {0}], handlers = [Listening], outbox = []\<rparr>
     (Resume 0 (Sent 0 True)) =
   Some \<lparr>manager = \<lparr>connections = {0}, symbols = PList [], interval = 5\<rparr>,
         tasks = [Sleeping 5], handlers = [Listening], outbox = [(0, message [])]\<rparr> \<and>
   step example_runtime
     \<lparr>manager = \<lparr>connections = {0}, symbols = PList [], interval = - 3\<rparr>,
      tasks = [Sending (message []) {0}], handlers = [Listening], outbox = []\<rparr>
     (Resume 0 (Sent 0 True)) =
   Some \<lparr>manager = \<lparr>connections = {0}, symbols = PList [], interval = - 3\<rparr>,
         tasks = [Sleeping 0], handlers = [Listening], outbox = [(0, message [])]\<rparr> \<and>
   step example_runtime
     \<lparr>manager = \<lparr>connections = {0}, symbols = PList [], interval = 2 ^ 1024\<rparr>,
      tasks = [Sending (message []) {0}], handlers = [Listening], outbox = []\<rparr>
     (Resume 0 (Sent 0 True)) =
   Some \<lparr>manager = \<lparr>connections = {0}, symbols = PList [], interval = 2 ^ 1024\<rparr>,
         tasks = [Raised OverflowError], handlers = [Listening],
         outbox = [(0, message [])]\<rparr> \<and>
   run example_runtime
     \<lparr>manager = \<lparr>connections = {0}, symbols = PList [], interval = 5\<rparr>,
      tasks = [Sleeping 5], handlers = [Listening], outbox = []\<rparr>
     [Receive 0 (Text (Inr (PDict [(''type'', PStr ''subscribe''),
                                   (''interval'', PInt 60)])))] =
   Some \<lparr>manager = \<lparr>connections = {0}, symbols = PList [], interval = 60\<rparr>,
         tasks = [Sleeping 5], handlers = [Listening], outbox = []\<rparr>"
proof -
  let ?a = "\<lambda>n. \<lparr>manager = \<lparr>connections = {0}, symbols = PList [], interval = n\<rparr>,
                  tasks = [Sending (message []) {0}], handlers = [Listening], outbox = []\<rparr>"
  let ?b = "\<lparr>manager = \<lparr>connections = {0}, symbols = PList [], interval = 5\<rparr>,
             tasks = [Sleeping 5], handlers = [Listening], outbox = []\<rparr>"
  let ?es = "[Receive 0 (Text (Inr (PDict [(''type'', PStr ''subscribe''),
                                           (''interval'', PInt 60)])))]"
  let ?big = "2 ^ 1024 :: int"
  obtain x where a: "step example_runtime (?a 5) (Resume 0 (Sent 0 True)) = Some x"
    and a': "tasks x ! 0 = Sleeping 5"
    by (simp add: eval_defs)
  obtain y where b: "step example_runtime (?a (- 3)) (Resume 0 (Sent 0 True)) = Some y"
    and b': "tasks y ! 0 = Sleeping 0"
    by (simp add: eval_defs)
  obtain z where c: "step example_runtime (?a ?big) (Resume 0 (Sent 0 True)) = Some z"
    by (simp add: eval_defs)
  obtain s3 where d: "run example_runtime ?b ?es = Some s3"
    by (simp add: eval_defs)
  have e: "0 < length (tasks ?b)" "tasks ?b ! 0 = Sleeping 5" "Resume 0 Wake \<notin> set ?es"
    "tasks (?a 5) ! 0 = Sending (message []) {0}"
    "tasks (?a (- 3)) ! 0 = Sending (message []) {0}"
    "tasks (?a ?big) ! 0 = Sending (message []) {0}"
    by simp_all
  from sleep_reads_interval_late
         [of example_runtime "?a 5" 0 "Sent 0 True" x 5 "?a ?big" 0 0 True z "message []"
             ?b ?es s3 0 5]
       sleep_reads_interval_late
         [of example_runtime "?a (- 3)" 0 "Sent 0 True" y 0 "?a (- 3)" 0 0 True y "message []"
             ?b ?es s3 0 5]
       a a' b b' c d e
  show ?thesis by (simp add: eval_defs)
qed

text \<open>
  The claim as it was stated fails. The cycle starts with the interval 15; while the task
  waits for its send, the client asks for an interval of 5; the task then sleeps 5.
\<close>

theorem sleep_interval_counterexample:
  "map_option (interval \<circ> manager)
     (run example_runtime init_server [Connect, Resume 0 Wake]) = Some 15 \<and>
   map_option tasks (run example_runtime init_server
     [Connect, Resume 0 Wake, Resume 0 (Fetched EmptyFrame), Resume 0 (Fetched EmptyFrame),
      Receive 0 (Text (Inr (PDict [(''type'', PStr ''subscribe''), (''interval'', PInt 5)]))),
      Resume 0 (Sent 0 True)]) = Some [Sleeping 5]"
  by (simp add: eval_defs)

subsection \<open>From the head of the loop to the message\<close>

lemma fetched_other: "\<forall>r. e \<noteq> Resume i r \<Longrightarrow> fetched i (e # es) = fetched i es"
  by (cases "(i, e # es)" rule: fetched.cases) auto

lemma idle_never_sends:
  assumes "run p s es = Some s'" and "i < length (tasks s)" and "idle (tasks s ! i)"
    and "Resume i Wake \<notin> set es"
  shows "tasks s' ! i \<noteq> Sending msg todo"
proof
  assume "tasks s' ! i = Sending msg todo"
  with idle_stays [OF assms] have "tasks s ! i = Sending msg todo" by simp
  with assms(3) show False by simp
qed

text \<open>While a task sends, its message stays the one it built.\<close>

lemma send_phase_msg:
  "run p s es = Some s' \<Longrightarrow> i < length (tasks s) \<Longrightarrow> tasks s ! i = Sending msg todo \<Longrightarrow>
   Resume i Wake \<notin> set es \<Longrightarrow> tasks s' ! i = Sending msg' todo' \<Longrightarrow>
   msg' = msg \<and> todo' \<subseteq> todo \<and> fetched i es = []"
proof (induction es arbitrary: s todo)
  case Nil
  then show ?case by simp
next
  case (Cons e es)
  from Cons.prems(1) obtain s1 where s1: "step p s e = Some s1" and r: "run p s1 es = Some s'"
    by (rule run_ConsE)
  from step_tasks_length [OF s1] Cons.prems(2) have l: "i < length (tasks s1)" by simp
  from Cons.prems(4) have nw: "Resume i Wake \<notin> set es" by simp
  show ?case
  proof (cases "\<exists>r. e = Resume i r")
    case False
    then have other: "\<forall>r. e \<noteq> Resume i r" by simp
    from step_task_other [OF s1 Cons.prems(2) other] Cons.prems(3)
    have "tasks s1 ! i = Sending msg todo" by simp
    from Cons.IH [OF r l this nw Cons.prems(5)] fetched_other [OF other]
    show ?thesis by simp
  next
    case True
    then obtain r where e: "e = Resume i r" by blast
    from s1 [unfolded e] obtain m t sent where
      sp: "stream_prices (sleep_overflows p) (manager s) (tasks s ! i) r = Some (m, t, sent)" and
      s1': "s1 = s\<lparr>manager := m, tasks := (tasks s)[i := t], outbox := outbox s @ sent\<rparr>"
      by (rule step_ResumeE)
    from sp Cons.prems(3) obtain ws ok where rs: "r = Sent ws ok" and ws: "ws \<in> todo"
      by (cases r) (auto split: if_splits)
    from s1' Cons.prems(2) have ti: "tasks s1 ! i = t" by simp
    from sp Cons.prems(3) rs ws
    consider (more) "t = Sending msg (todo - {ws})" | (last) "idle t"
      by (auto simp: Let_def asyncio_sleep_idle split: if_splits)
    then show ?thesis
    proof cases
      case more
      from Cons.IH [OF r l _ nw Cons.prems(5), of "todo - {ws}"] ti more e rs
      show ?thesis by auto
    next
      case last
      from idle_never_sends [OF r l _ nw, of msg' todo'] ti last Cons.prems(5)
      show ?thesis by simp
    qed
  qed
qed

text \<open>
  While a task fetches, each answer adds the quote of the next symbol; the message is
  built from the quotes of all the symbols the loop started with.
\<close>

lemma fetch_phase:
  "run p s es = Some s' \<Longrightarrow> i < length (tasks s) \<Longrightarrow> tasks s ! i = Fetching rest ups \<Longrightarrow>
   Resume i Wake \<notin> set es \<Longrightarrow> tasks s' ! i = Sending msg todo \<Longrightarrow>
   \<exists>qs. list_all2 (\<lambda>(x, df) q. fetch_quote x df = Inr q) (zip rest (fetched i es)) qs \<and>
        length (fetched i es) = length rest \<and> msg = message (ups @ qs)"
proof (induction es arbitrary: s rest ups)
  case Nil
  then show ?case by simp
next
  case (Cons e es)
  from Cons.prems(1) obtain s1 where s1: "step p s e = Some s1" and r: "run p s1 es = Some s'"
    by (rule run_ConsE)
  from step_tasks_length [OF s1] Cons.prems(2) have l: "i < length (tasks s1)" by simp
  from Cons.prems(4) have nw: "Resume i Wake \<notin> set es" by simp
  show ?case
  proof (cases "\<exists>r. e = Resume i r")
    case False
    then have other: "\<forall>r. e \<noteq> Resume i r" by simp
    from step_task_other [OF s1 Cons.prems(2) other] Cons.prems(3)
    have "tasks s1 ! i = Fetching rest ups" by simp
    from Cons.IH [OF r l this nw Cons.prems(5)] fetched_other [OF other]
    show ?thesis by simp
  next
    case True
    then obtain r where e: "e = Resume i r" by blast
    from s1 [unfolded e] obtain m t sent where
      sp: "stream_prices (sleep_overflows p) (manager s) (tasks s ! i) r = Some (m, t, sent)" and
      s1': "s1 = s\<lparr>manager := m, tasks := (tasks s)[i := t], outbox := outbox s @ sent\<rparr>"
      by (rule step_ResumeE)
    from s1' Cons.prems(2) have ti: "tasks s1 ! i = t" by simp
    from sp Cons.prems(3) obtain x rest0 df where
      rest: "rest = x # rest0" and rf: "r = Fetched df"
      by (cases "(sleep_overflows p, manager s, tasks s ! i, r)" rule: stream_prices.cases) auto
    from fetch_quote_total obtain q where q: "fetch_quote x df = Inr q" by blast
    from sp Cons.prems(3) rest rf q
    have t: "t = fetch_next (sleep_overflows p) (manager s) rest0 (ups @ [q])"
      by auto
    have f: "fetched i (e # es) = df # fetched i es" using e rf by simp
    show ?thesis
    proof (cases "rest0 = []")
      case False
      with t ti have "tasks s1 ! i = Fetching rest0 (ups @ [q])" by (simp add: fetch_next_def)
      from Cons.IH [OF r l this nw Cons.prems(5)] obtain qs where
        "list_all2 (\<lambda>(x, df) q. fetch_quote x df = Inr q) (zip rest0 (fetched i es)) qs"
        "length (fetched i es) = length rest0" "msg = message ((ups @ [q]) @ qs)"
        by blast
      with rest f q show ?thesis
        by (intro exI [of _ "q # qs"]) simp
    next
      case True
      with t ti have b: "tasks s1 ! i = broadcast (sleep_overflows p) (manager s) (ups @ [q])"
        by (simp add: fetch_next_def)
      show ?thesis
      proof (cases "connections (manager s) = {}")
        case True
        with b have "idle (tasks s1 ! i)"
          by (simp add: broadcast_def asyncio_sleep_idle)
        from idle_never_sends [OF r l this nw, of msg todo] Cons.prems(5)
        show ?thesis by simp
      next
        case False
        with b have "tasks s1 ! i = Sending (message (ups @ [q])) (connections (manager s))"
          by (simp add: broadcast_def)
        from send_phase_msg [OF r l this nw Cons.prems(5)]
        have "msg = message (ups @ [q])" "fetched i es = []" by simp_all
        with rest f q \<open>rest0 = []\<close> show ?thesis
          by (intro exI [of _ "[q]"]) simp
      qed
    qed
  qed
qed

lemma cycle_message:
  assumes wake: "step p s0 (Resume i Wake) = Some s"
    and it: "py_iter (symbols (manager s0)) = Inr syms"
    and run: "run p s es = Some s'"
    and nw: "Resume i Wake \<notin> set es"
    and snd: "tasks s' ! i = Sending msg todo"
  shows "length (fetched i es) = length syms \<and>
    (\<exists>qs. list_all2 (\<lambda>(x, df) q. fetch_quote x df = Inr q) (zip syms (fetched i es)) qs \<and>
          msg = message qs)"
proof -
  from wake obtain m t sent where
    i: "i < length (tasks s0)" and
    sp: "stream_prices (sleep_overflows p) (manager s0) (tasks s0 ! i) Wake = Some (m, t, sent)" and
    s: "s = s0\<lparr>manager := m, tasks := (tasks s0)[i := t], outbox := outbox s0 @ sent\<rparr>"
    by (rule step_ResumeE)
  from s i have ti: "tasks s ! i = t" and l: "i < length (tasks s)" by simp_all
  from sp have t: "t = start_cycle (sleep_overflows p) (manager s0)"
    by (cases "tasks s0 ! i") auto
  show ?thesis
  proof (cases "connections (manager s0) = {}")
    case True
    with t ti have "idle (tasks s ! i)"
      by (simp add: start_cycle_def)
    from idle_never_sends [OF run l this nw, of msg todo] snd show ?thesis by simp
  next
    case ne: False
    show ?thesis
    proof (cases "syms = []")
      case True
      with t ti it ne have "tasks s ! i = Sending (message []) (connections (manager s0))"
        by (simp add: start_cycle_def fetch_next_def broadcast_def)
      from send_phase_msg [OF run l this nw snd] True show ?thesis by simp
    next
      case False
      with t ti it ne have "tasks s ! i = Fetching syms []"
        by (simp add: start_cycle_def fetch_next_def)
      from fetch_phase [OF run l this nw snd] show ?thesis by auto
    qed
  qed
qed

lemma quote_symbol_fetch: "fetch_quote x df = Inr q \<Longrightarrow> map_of q ''symbol'' = Some x"
  by (auto simp: fetch_quote_cases split: download.splits sum.splits)

lemma quote_error_fetch:
  "fetch_quote x df = Inr q \<Longrightarrow> failed df \<longleftrightarrow> ''error'' \<in> dom (map_of q)"
  by (cases df rule: failed.cases) (auto simp: fetch_quote_cases)



lemma list_all2_quotes_nth:
  "list_all2 (\<lambda>(x, df) q. fetch_quote x df = Inr q) (zip syms dfs) qs \<Longrightarrow>
   length dfs = length syms \<Longrightarrow>
   length qs = length syms \<and> (\<forall>k<length syms. fetch_quote (syms ! k) (dfs ! k) = Inr (qs ! k))"
  by (auto simp: list_all2_conv_all_nth)

text \<open>
  A task that waits for a fetch goes on, whatever the fetch gives: to the next symbol, or
  after the last one to the message with all the quotes and to the first send.
\<close>

lemma step_fetched:
  assumes "i < length (tasks s)" and "tasks s ! i = Fetching (x # rest) ups"
    and "fetch_quote x df = Inr q"
  shows "step p s (Resume i (Fetched df)) =
           Some (s\<lparr>tasks := (tasks s)
             [i := if rest \<noteq> [] then Fetching rest (ups @ [q])
                   else if connections (manager s) \<noteq> {} then
                     Sending (PDict [(''type'', PStr ''quotes''),
                                     (''data'', PList (map PDict (ups @ [q])))])
                       (connections (manager s))
                   else asyncio_sleep (sleep_overflows p) (interval (manager s))]\<rparr>)"
  using assms by (simp add: step.simps fetch_next_def broadcast_def message_def)



text \<open>
  Claim C6. \<open>fetch_quote\<close> never raises: whatever the library gives, it returns a quote
  for its symbol, and the quote has the field \<open>error\<close> exactly when the fetch gave no
  price. A task that waits for a fetch goes on with the quote added to those it has,
  whatever the fetch gives: to the next symbol, or after the last one to the message and
  its sends. So the message of a cycle is \<open>{"type": "quotes", "data": [...]}\<close> with one
  quote for each symbol the cycle started with, in order, the one of a symbol whose fetch
  failed marked with \<open>error\<close>, the others as their own fetches make them.
\<close>

theorem fetch_failure_isolated:
  "(\<exists>q. fetch_quote x df = Inr q \<and> map_of q ''symbol'' = Some x \<and>
        (failed df \<longleftrightarrow> ''error'' \<in> dom (map_of q)) \<and>
        (i < length (tasks s1) \<and> tasks s1 ! i = Fetching (x # rest) ups \<longrightarrow>
           step p s1 (Resume i (Fetched df)) =
             Some (s1\<lparr>tasks := (tasks s1)
               [i := if rest \<noteq> [] then Fetching rest (ups @ [q])
                     else if connections (manager s1) \<noteq> {} then
                       Sending (PDict [(''type'', PStr ''quotes''),
                                       (''data'', PList (map PDict (ups @ [q])))])
                         (connections (manager s1))
                     else asyncio_sleep (sleep_overflows p) (interval (manager s1))]\<rparr>))) \<and>
   (step p s0 (Resume i Wake) = Some s \<and> py_iter (symbols (manager s0)) = Inr syms \<and>
    run p s es = Some s' \<and> Resume i Wake \<notin> set es \<and> tasks s' ! i = Sending msg todo \<longrightarrow>
      length (fetched i es) = length syms \<and>
      (\<exists>qs. msg = PDict [(''type'', PStr ''quotes''), (''data'', PList (map PDict qs))] \<and>
         length qs = length syms \<and>
         (\<forall>k<length syms.
            fetch_quote (syms ! k) (fetched i es ! k) = Inr (qs ! k) \<and>
            map_of (qs ! k) ''symbol'' = Some (syms ! k) \<and>
            (failed (fetched i es ! k) \<longleftrightarrow> ''error'' \<in> dom (map_of (qs ! k))))))"
proof (intro conjI impI)
  from fetch_quote_total obtain q where q: "fetch_quote x df = Inr q" by blast
  with quote_symbol_fetch [OF q] quote_error_fetch [OF q]
    step_fetched [of i s1 x rest ups df q p]
  show "\<exists>q. fetch_quote x df = Inr q \<and> map_of q ''symbol'' = Some x \<and>
        (failed df \<longleftrightarrow> ''error'' \<in> dom (map_of q)) \<and>
        (i < length (tasks s1) \<and> tasks s1 ! i = Fetching (x # rest) ups \<longrightarrow>
           step p s1 (Resume i (Fetched df)) =
             Some (s1\<lparr>tasks := (tasks s1)
               [i := if rest \<noteq> [] then Fetching rest (ups @ [q])
                     else if connections (manager s1) \<noteq> {} then
                       Sending (PDict [(''type'', PStr ''quotes''),
                                       (''data'', PList (map PDict (ups @ [q])))])
                         (connections (manager s1))
                     else asyncio_sleep (sleep_overflows p) (interval (manager s1))]\<rparr>))"
    by blast
next
  assume a: "step p s0 (Resume i Wake) = Some s \<and> py_iter (symbols (manager s0)) = Inr syms \<and>
    run p s es = Some s' \<and> Resume i Wake \<notin> set es \<and> tasks s' ! i = Sending msg todo"
  from cycle_message [of p s0 i s syms es s' msg todo] a
  obtain qs where len: "length (fetched i es) = length syms"
    and qs: "list_all2 (\<lambda>(x, df) q. fetch_quote x df = Inr q) (zip syms (fetched i es)) qs"
    and msg: "msg = message qs"
    by blast
  from len show "length (fetched i es) = length syms" .
  from list_all2_quotes_nth [OF qs len]
  have l: "length qs = length syms"
    and n: "\<forall>k<length syms. fetch_quote (syms ! k) (fetched i es ! k) = Inr (qs ! k)"
    by simp_all
  from n quote_symbol_fetch quote_error_fetch
  have "\<forall>k<length syms.
            fetch_quote (syms ! k) (fetched i es ! k) = Inr (qs ! k) \<and>
            map_of (qs ! k) ''symbol'' = Some (syms ! k) \<and>
            (failed (fetched i es ! k) \<longleftrightarrow> ''error'' \<in> dom (map_of (qs ! k)))"
    by blast
  with msg [unfolded message_def] l
  show "\<exists>qs. msg = PDict [(''type'', PStr ''quotes''), (''data'', PList (map PDict qs))] \<and>
         length qs = length syms \<and>
         (\<forall>k<length syms.
            fetch_quote (syms ! k) (fetched i es ! k) = Inr (qs ! k) \<and>
            map_of (qs ! k) ''symbol'' = Some (syms ! k) \<and>
            (failed (fetched i es ! k) \<longleftrightarrow> ''error'' \<in> dom (map_of (qs ! k))))"
    by blast
qed

text \<open>
  The theorem at a cycle in which the download of the first symbol raises and that of the
  second gives a price: the message has the error for the first and the price for the
  second.
\<close>

theorem fetch_failure_isolated_witness:
  "\<exists>s0 s s'.
     run example_runtime init_server [Connect] = Some s0 \<and>
     step example_runtime s0 (Resume 0 Wake) = Some s \<and>
     py_iter (symbols (manager s0)) = Inr [PStr ''^GSPC'', PStr ''^NDX''] \<and>
     tasks s ! 0 = Fetching [PStr ''^GSPC'', PStr ''^NDX''] [] \<and>
     fetch_quote (PStr ''^GSPC'') (DownloadRaises ''timed out'') =
       Inr [(''symbol'', PStr ''^GSPC''), (''error'', PStr ''timed out'')] \<and>
     failed (DownloadRaises ''timed out'') \<and>
     step example_runtime s (Resume 0 (Fetched (DownloadRaises ''timed out''))) =
       Some (s\<lparr>tasks := [Fetching [PStr ''^NDX'']
                            [[(''symbol'', PStr ''^GSPC''), (''error'', PStr ''timed out'')]]]\<rparr>) \<and>
     run example_runtime s
       [Resume 0 (Fetched (DownloadRaises ''timed out'')),
        Resume 0 (Fetched (LastRow (Inr (Finite 100)) ''2024-01-02 15:59:00''))] = Some s' \<and>
     tasks s' ! 0 =
       Sending (PDict [(''type'', PStr ''quotes''),
                       (''data'', PList
                          [PDict [(''symbol'', PStr ''^GSPC''), (''error'', PStr ''timed out'')],
                           PDict [(''symbol'', PStr ''^NDX''), (''price'', PFloat (Finite 100)),
                                  (''currency'', PStr ''N/A''),
                                  (''timestamp'', PStr ''2024-01-02 15:59:00'')]])]) {0}"
proof -
  let ?d1 = "DownloadRaises ''timed out''"
  let ?d2 = "LastRow (Inr (Finite 100)) ''2024-01-02 15:59:00''"
  let ?es = "[Resume 0 (Fetched ?d1), Resume 0 (Fetched ?d2)]"
  let ?msg = "message [[(''symbol'', PStr ''^GSPC''), (''error'', PStr ''timed out'')],
                       [(''symbol'', PStr ''^NDX''), (''price'', PFloat (Finite 100)),
                        (''currency'', PStr ''N/A''),
                        (''timestamp'', PStr ''2024-01-02 15:59:00'')]]"
  obtain s0 where r0: "run example_runtime init_server [Connect] = Some s0"
    and v0: "s0 = \<lparr>manager = \<lparr>connections = {0},
                                  symbols = PList [PStr ''^GSPC'', PStr ''^NDX''],
                                  interval = 15\<rparr>,
                      tasks = [Created], handlers = [Listening], outbox = []\<rparr>"
    by (simp add: eval_defs)
  obtain s where w: "step example_runtime s0 (Resume 0 Wake) = Some s"
    and v: "s = s0\<lparr>tasks := [Fetching [PStr ''^GSPC'', PStr ''^NDX''] []]\<rparr>"
    by (simp add: v0 eval_defs)
  have it: "py_iter (symbols (manager s0)) = Inr [PStr ''^GSPC'', PStr ''^NDX'']"
    by (simp add: v0)
  have ts: "0 < length (tasks s)" "tasks s ! 0 = Fetching [PStr ''^GSPC'', PStr ''^NDX''] []"
    by (simp_all add: v)
  obtain s' where r: "run example_runtime s ?es = Some s'"
    and t: "tasks s' ! 0 = Sending ?msg {0}"
    by (simp add: v v0 eval_defs)
  have nw: "Resume 0 Wake \<notin> set ?es" by simp
  from fetch_failure_isolated
         [of "PStr ''^GSPC''" ?d1 0 s "[PStr ''^NDX'']" "[]" example_runtime s0 s
             "[PStr ''^GSPC'', PStr ''^NDX'']" ?es s' ?msg "{0}"]
       r0 w it ts r t nw
  show ?thesis by (auto simp: v v0 eval_defs)
qed

section \<open>Sending the message\<close>

lemma step_outbox: "step p s e = Some s' \<Longrightarrow> \<exists>sent. outbox s' = outbox s @ sent"
  by (cases e) (auto simp: step.simps Let_def split: prod.splits if_splits option.splits)

lemma run_outbox: "run p s es = Some s' \<Longrightarrow> \<exists>sent. outbox s' = outbox s @ sent"
proof (induction es arbitrary: s)
  case Nil
  then show ?case by simp
next
  case (Cons e es)
  from Cons.prems obtain s1 where s1: "step p s e = Some s1" and r: "run p s1 es = Some s'"
    by (rule run_ConsE)
  from step_outbox [OF s1] Cons.IH [OF r] show ?case by auto
qed

lemma step_handlers_length:
  "step p s e = Some s' \<Longrightarrow> length (handlers s) \<le> length (handlers s')"
  by (cases e) (auto simp: step.simps Let_def split: prod.splits if_splits option.splits)

lemma run_handlers_length:
  "run p s es = Some s' \<Longrightarrow> length (handlers s) \<le> length (handlers s')"
proof (induction es arbitrary: s)
  case Nil
  then show ?case by simp
next
  case (Cons e es)
  from Cons.prems obtain s1 where "step p s e = Some s1" "run p s1 es = Some s'"
    by (rule run_ConsE)
  with step_handlers_length Cons.IH show ?case by fastforce
qed

text \<open>A websocket that has left the registry never comes back: a new client is a new one.\<close>

lemma step_removed:
  assumes "step p s e = Some s'" and "c < length (handlers s)" and "c \<notin> connections (manager s)"
  shows "c \<notin> connections (manager s')"
proof (cases e)
  case Connect
  with assms show ?thesis by (auto simp: step.simps connect_def Let_def)
next
  case (Receive ws inb)
  with assms(1) have "connections (manager s') \<subseteq> connections (manager s)"
    by (auto simp: step.simps websocket_endpoint_def disconnect_def on_message_def Let_def
             split: if_splits inbound.splits sum.splits prod.splits option.splits)
  with assms(3) show ?thesis by blast
next
  case (Resume i r)
  from assms(1) [unfolded Resume] obtain m t sent where
    sp: "stream_prices (sleep_overflows p) (manager s) (tasks s ! i) r = Some (m, t, sent)" and
    s': "s' = s\<lparr>manager := m, tasks := (tasks s)[i := t], outbox := outbox s @ sent\<rparr>"
    by (rule step_ResumeE)
  from stream_prices_connections [OF sp] s' assms(3) show ?thesis by auto
qed

lemma run_removed:
  "run p s es = Some s' \<Longrightarrow> c < length (handlers s) \<Longrightarrow> c \<notin> connections (manager s) \<Longrightarrow>
     c \<notin> connections (manager s')"
proof (induction es arbitrary: s)
  case Nil
  then show ?case by simp
next
  case (Cons e es)
  from Cons.prems(1) obtain s1 where s1: "step p s e = Some s1" and r: "run p s1 es = Some s'"
    by (rule run_ConsE)
  from step_handlers_length [OF s1] Cons.prems(2) have "c < length (handlers s1)" by simp
  from Cons.IH [OF r this step_removed [OF s1 Cons.prems(2,3)]] show ?case .
qed

lemma disconnect_removes: "c \<notin> connections (disconnect m c)"
  by (simp add: disconnect_def)

lemma step_sent:
  assumes "step p s (Resume i (Sent ws ok)) = Some s1" and "tasks s ! i = Sending msg todo"
  shows "ws \<in> todo \<and>
    manager s1 = (if ok then manager s else disconnect (manager s) ws) \<and>
    tasks s1 ! i = (if todo - {ws} = {}
                    then asyncio_sleep (sleep_overflows p) (interval (manager s))
                    else Sending msg (todo - {ws})) \<and>
    outbox s1 = outbox s @ (if ok then [(ws, msg)] else []) \<and>
    handlers s1 = handlers s"
  using assms
  by (auto elim!: step_ResumeE simp: Let_def disconnect_def split: if_splits)

text \<open>The sends of a cycle start with the registry as it is at that moment.\<close>

lemma enter_sending:
  assumes "step p s0 (Resume i r) = Some s" and "\<not> sending (tasks s0 ! i)"
    and "tasks s ! i = Sending msg todo"
  shows "todo = connections (manager s)"
proof -
  from assms(1) obtain m t sent where
    i: "i < length (tasks s0)" and
    sp: "stream_prices (sleep_overflows p) (manager s0) (tasks s0 ! i) r = Some (m, t, sent)" and
    s: "s = s0\<lparr>manager := m, tasks := (tasks s0)[i := t], outbox := outbox s0 @ sent\<rparr>"
    by (rule step_ResumeE)
  from s i assms(3) have t: "t = Sending msg todo" by simp
  from sp t assms(2) have "todo = connections m"
    by (cases "(sleep_overflows p, manager s0, tasks s0 ! i, r)" rule: stream_prices.cases)
       (auto simp: Let_def start_cycle_def fetch_next_def broadcast_def asyncio_sleep_def
             split: if_splits sum.splits)
  with s show ?thesis by simp
qed

text \<open>
  When the sends of a cycle are over, every websocket of the snapshot has been served:
  its send returned and the message was delivered to it, or its send raised and it has
  left the registry.
\<close>

lemma send_phase_served:
  "run p s es = Some s' \<Longrightarrow> registered s \<Longrightarrow> i < length (tasks s) \<Longrightarrow>
   tasks s ! i = Sending msg todo \<Longrightarrow> Resume i Wake \<notin> set es \<Longrightarrow> \<not> sending (tasks s' ! i) \<Longrightarrow>
   \<forall>c\<in>todo.
     (Resume i (Sent c True) \<in> set es \<and> (c, msg) \<in> set (drop (length (outbox s)) (outbox s'))) \<or>
     (Resume i (Sent c False) \<in> set es \<and> c \<notin> connections (manager s'))"
proof (induction es arbitrary: s todo)
  case Nil
  then show ?case by simp
next
  case (Cons e es)
  from Cons.prems(1) obtain s1 where s1: "step p s e = Some s1" and r: "run p s1 es = Some s'"
    by (rule run_ConsE)
  from step_tasks_length [OF s1] Cons.prems(3) have l: "i < length (tasks s1)" by simp
  from Cons.prems(5) have nw: "Resume i Wake \<notin> set es" by simp
  from registered_step [OF s1 Cons.prems(2)] have reg1: "registered s1" .
  from step_outbox [OF s1] have "length (outbox s) \<le> length (outbox s1)" by auto
  then have sub: "set (drop (length (outbox s1)) (outbox s')) \<subseteq>
                  set (drop (length (outbox s)) (outbox s'))"
    by (rule set_drop_subset_set_drop)
  have later: "(Resume i (Sent c True) \<in> set (e # es) \<and>
          (c, msg) \<in> set (drop (length (outbox s)) (outbox s'))) \<or>
         (Resume i (Sent c False) \<in> set (e # es) \<and> c \<notin> connections (manager s'))"
    if "c \<in> todo1" and "tasks s1 ! i = Sending msg todo1" for c todo1
    using Cons.IH [OF r reg1 l that(2) nw Cons.prems(6)] that(1) sub by auto
  show ?case
  proof (cases "\<exists>r. e = Resume i r")
    case False
    then have other: "\<forall>r. e \<noteq> Resume i r" by simp
    from step_task_other [OF s1 Cons.prems(3) other] Cons.prems(4)
    have "tasks s1 ! i = Sending msg todo" by simp
    then show ?thesis by (intro ballI later)
  next
    case True
    then obtain r where e: "e = Resume i r" by blast
    from s1 [unfolded e] Cons.prems(4) obtain ws ok where rs: "r = Sent ws ok"
      by (cases r) (auto elim!: step_ResumeE)
    from step_sent [OF s1 [unfolded e rs] Cons.prems(4)]
    have ws: "ws \<in> todo"
      and m1: "manager s1 = (if ok then manager s else disconnect (manager s) ws)"
      and t1: "tasks s1 ! i = (if todo - {ws} = {}
                    then asyncio_sleep (sleep_overflows p) (interval (manager s))
                    else Sending msg (todo - {ws}))"
      and o1: "outbox s1 = outbox s @ (if ok then [(ws, msg)] else [])"
      and h1: "handlers s1 = handlers s"
      by simp_all
    show ?thesis
    proof
      fix c assume c: "c \<in> todo"
      show "(Resume i (Sent c True) \<in> set (e # es) \<and>
          (c, msg) \<in> set (drop (length (outbox s)) (outbox s'))) \<or>
         (Resume i (Sent c False) \<in> set (e # es) \<and> c \<notin> connections (manager s'))"
      proof (cases "c = ws")
        case False
        with c t1 have "c \<in> todo - {ws}" "tasks s1 ! i = Sending msg (todo - {ws})" by auto
        then show ?thesis by (rule later)
      next
        case same: True
        show ?thesis
        proof (cases ok)
          case True
          from run_outbox [OF r] o1 True obtain sent where
            "outbox s' = outbox s @ (ws, msg) # sent" by auto
          with e rs True same show ?thesis by simp
        next
          case False
          with m1 have "ws \<notin> connections (manager s1)" by (simp add: disconnect_removes)
          moreover from nth_mem [OF Cons.prems(3)] Cons.prems(2,4) ws h1
          have "ws < length (handlers s1)" unfolding registered_def by auto
          ultimately have "ws \<notin> connections (manager s')"
            using run_removed [OF r] by blast
          with e rs False same show ?thesis by simp
        qed
      qed
    qed
  qed
qed

text \<open>A send that raised during the sends of a cycle was to a websocket of the snapshot,
  which has left the registry.\<close>

lemma send_phase_failed:
  "run p s es = Some s' \<Longrightarrow> registered s \<Longrightarrow> i < length (tasks s) \<Longrightarrow>
   tasks s ! i = Sending msg todo \<Longrightarrow> Resume i Wake \<notin> set es \<Longrightarrow>
   Resume i (Sent c False) \<in> set es \<Longrightarrow> c \<in> todo \<and> c \<notin> connections (manager s')"
proof (induction es arbitrary: s todo)
  case Nil
  then show ?case by simp
next
  case (Cons e es)
  from Cons.prems(1) obtain s1 where s1: "step p s e = Some s1" and r: "run p s1 es = Some s'"
    by (rule run_ConsE)
  from step_tasks_length [OF s1] Cons.prems(3) have l: "i < length (tasks s1)" by simp
  from Cons.prems(5) have nw: "Resume i Wake \<notin> set es" by simp
  from registered_step [OF s1 Cons.prems(2)] have reg1: "registered s1" .
  show ?case
  proof (cases "\<exists>r. e = Resume i r")
    case False
    then have other: "\<forall>r. e \<noteq> Resume i r" by simp
    with Cons.prems(6) have mem: "Resume i (Sent c False) \<in> set es" by auto
    from step_task_other [OF s1 Cons.prems(3) other] Cons.prems(4)
    have "tasks s1 ! i = Sending msg todo" by simp
    from Cons.IH [OF r reg1 l this nw mem] show ?thesis .
  next
    case True
    then obtain r where e: "e = Resume i r" by blast
    from s1 [unfolded e] Cons.prems(4) obtain ws ok where rs: "r = Sent ws ok"
      by (cases r) (auto elim!: step_ResumeE)
    from step_sent [OF s1 [unfolded e rs] Cons.prems(4)]
    have ws: "ws \<in> todo"
      and m1: "manager s1 = (if ok then manager s else disconnect (manager s) ws)"
      and t1: "tasks s1 ! i = (if todo - {ws} = {}
                    then asyncio_sleep (sleep_overflows p) (interval (manager s))
                    else Sending msg (todo - {ws}))"
      and h1: "handlers s1 = handlers s"
      by simp_all
    show ?thesis
    proof (cases "ws = c \<and> \<not> ok")
      case True
      with m1 have "c \<notin> connections (manager s1)" by (simp add: disconnect_removes)
      moreover from nth_mem [OF Cons.prems(3)] Cons.prems(2,4) ws h1 True
      have "c < length (handlers s1)" unfolding registered_def by auto
      ultimately have "c \<notin> connections (manager s')"
        using run_removed [OF r] by blast
      with ws True show ?thesis by simp
    next
      case False
      with Cons.prems(6) e rs have mem: "Resume i (Sent c False) \<in> set es" by auto
      show ?thesis
      proof (cases "todo - {ws} = {}")
        case True
        with t1 have "idle (tasks s1 ! i)" by (simp add: asyncio_sleep_idle)
        from idle_stays [OF r l this nw] mem show ?thesis by blast
      next
        case False
        with t1 have "tasks s1 ! i = Sending msg (todo - {ws})" by simp
        from Cons.IH [OF r reg1 l this nw mem] show ?thesis by simp
      qed
    qed
  qed
qed

text \<open>
  Claim C7. A cycle starts its sends with the registry of that moment as its snapshot.
  When the send to a websocket \<open>c\<close> raises during these sends, then once they are over
  \<open>c\<close> is out of the registry and stays out, so also when the next cycle starts; and
  every other websocket of the snapshot has been delivered the message of the cycle, the
  same for all, unless its own send raised, in which case it has left the registry too.
\<close>

theorem send_failure_isolated:
  assumes "run p init_server es0 = Some s0"
    and "step p s0 (Resume i r) = Some s"
    and "\<not> sending (tasks s0 ! i)"
    and "tasks s ! i = Sending msg todo"
    and "run p s es = Some s2"
    and "Resume i Wake \<notin> set es"
    and "\<not> sending (tasks s2 ! i)"
    and "Resume i (Sent c False) \<in> set es"
    and "run p s2 es' = Some s3"
  shows "todo = connections (manager s) \<and> c \<in> todo \<and>
         c \<notin> connections (manager s2) \<and> c \<notin> connections (manager s3) \<and>
         (\<forall>c'\<in>todo - {c}.
            (Resume i (Sent c' True) \<in> set es \<and>
             (c', msg) \<in> set (drop (length (outbox s)) (outbox s2))) \<or>
            (Resume i (Sent c' False) \<in> set es \<and> c' \<notin> connections (manager s2)))"
proof -
  from registered_run [OF assms(1) registered_init] have reg0: "registered s0" .
  from registered_step [OF assms(2) reg0] have reg: "registered s" .
  from assms(2) have "i < length (tasks s0)" by (rule step_ResumeE)
  with step_tasks_length [OF assms(2)] have l: "i < length (tasks s)" by simp
  from enter_sending [OF assms(2,3,4)] have snap: "todo = connections (manager s)" .
  from send_phase_failed [OF assms(5) reg l assms(4,6,8)]
  have c: "c \<in> todo" and gone: "c \<notin> connections (manager s2)" by simp_all
  from nth_mem [OF l] reg assms(4) c have "c < length (handlers s)"
    unfolding registered_def by auto
  with run_handlers_length [OF assms(5)] have "c < length (handlers s2)" by simp
  from run_removed [OF assms(9) this gone] have gone3: "c \<notin> connections (manager s3)" .
  from send_phase_served [OF assms(5) reg l assms(4,6,7)]
  have "\<forall>c'\<in>todo - {c}.
            (Resume i (Sent c' True) \<in> set es \<and>
             (c', msg) \<in> set (drop (length (outbox s)) (outbox s2))) \<or>
            (Resume i (Sent c' False) \<in> set es \<and> c' \<notin> connections (manager s2))"
    by simp
  with snap c gone gone3 show ?thesis by blast
qed

text \<open>
  The theorem at a cycle with two clients: the task takes its snapshot at its last fetch,
  the send to the first client raises, the send to the second returns and the task
  sleeps; a third client connects and the next cycle starts.
\<close>

theorem send_failure_isolated_witness:
  "\<exists>s0 s s2 s3.
     run example_runtime init_server
       [Connect, Connect, Resume 0 Wake, Resume 0 (Fetched EmptyFrame)] = Some s0 \<and>
     \<not> sending (tasks s0 ! 0) \<and>
     step example_runtime s0 (Resume 0 (Fetched EmptyFrame)) = Some s \<and>
     connections (manager s) = {0, 1} \<and>
     tasks s ! 0 =
       Sending (PDict [(''type'', PStr ''quotes''),
                       (''data'', PList
                          [PDict [(''symbol'', PStr ''^GSPC''),
                                  (''error'', PStr ''No data returned'')],
                           PDict [(''symbol'', PStr ''^NDX''),
                                  (''error'', PStr ''No data returned'')]])]) {0, 1} \<and>
     run example_runtime s [Resume 0 (Sent 0 False), Resume 0 (Sent 1 True)] = Some s2 \<and>
     tasks s2 ! 0 = Sleeping 15 \<and> \<not> sending (tasks s2 ! 0) \<and>
     connections (manager s2) = {1} \<and>
     outbox s2 =
       [(1, PDict [(''type'', PStr ''quotes''),
                   (''data'', PList
                      [PDict [(''symbol'', PStr ''^GSPC''),
                              (''error'', PStr ''No data returned'')],
                       PDict [(''symbol'', PStr ''^NDX''),
                              (''error'', PStr ''No data returned'')]])])] \<and>
     run example_runtime s2 [Connect, Resume 0 Wake] = Some s3 \<and>
     connections (manager s3) = {1, 2}"
proof -
  let ?before = "[Connect, Connect, Resume 0 Wake, Resume 0 (Fetched EmptyFrame)]"
  let ?sends = "[Resume 0 (Sent 0 False), Resume 0 (Sent 1 True)]"
  let ?q1 = "[(''symbol'', PStr ''^GSPC''), (''error'', PStr ''No data returned'')]"
  let ?q2 = "[(''symbol'', PStr ''^NDX''), (''error'', PStr ''No data returned'')]"
  let ?msg = "PDict [(''type'', PStr ''quotes''), (''data'', PList [PDict ?q1, PDict ?q2])]"
  let ?m = "\<lparr>connections = {0, 1}, symbols = PList [PStr ''^GSPC'', PStr ''^NDX''],
            interval = 15\<rparr>"
  have "\<exists>s0. run example_runtime init_server ?before = Some s0 \<and>
          s0 = \<lparr>manager = ?m, tasks = [Fetching [PStr ''^NDX''] [?q1]],
                  handlers = [Listening, Listening], outbox = []\<rparr>"
    by (simp add: eval_defs insert_commute)
  then obtain s0 where r0: "run example_runtime init_server ?before = Some s0"
    and v0: "s0 = \<lparr>manager = ?m, tasks = [Fetching [PStr ''^NDX''] [?q1]],
                  handlers = [Listening, Listening], outbox = []\<rparr>"
    by blast
  have ns: "\<not> sending (tasks s0 ! 0)" by (simp add: v0)
  obtain s where st: "step example_runtime s0 (Resume 0 (Fetched EmptyFrame)) = Some s"
    and v: "s = \<lparr>manager = ?m, tasks = [Sending ?msg {0, 1}],
                 handlers = [Listening, Listening], outbox = []\<rparr>"
    by (simp add: v0 eval_defs)
  have ts: "tasks s ! 0 = Sending ?msg {0, 1}" by (simp add: v)
  obtain s2 where r2: "run example_runtime s ?sends = Some s2"
    and v2: "s2 = \<lparr>manager = ?m\<lparr>connections := {1}\<rparr>, tasks = [Sleeping 15],
                   handlers = [Listening, Listening], outbox = [(1, ?msg)]\<rparr>"
    by (simp add: v eval_defs)
  have e2: "Resume 0 Wake \<notin> set ?sends" "\<not> sending (tasks s2 ! 0)"
    "Resume 0 (Sent 0 False) \<in> set ?sends"
    by (simp_all add: v2)
  obtain s3 where r3: "run example_runtime s2 [Connect, Resume 0 Wake] = Some s3"
    and v3: "connections (manager s3) = {1, 2}"
    by (simp add: v2 eval_defs insert_commute numeral_2_eq_2)
  from send_failure_isolated [OF r0 st ns ts r2 e2 r3] r0 ns st ts r2 e2 r3 v v2 v3
  show ?thesis by auto
qed

end
